theory Spec2Isabelle
  imports Complex_Main "HOL-Library.Char_ord" "HOL-Library.List_Lexorder" "HOL-Library.AList"
    "HOL-Library.Multiset"
begin

section \<open>Receipt statistics (src/lib/stats/compute.ts)\<close>

text \<open>
  The module turns a list of mining receipts and a day-indexed reward-rate table into
  per-address, per-day and per-hour statistics. The embedding follows compute.ts function by
  function and keeps its names. What the JavaScript runtime supplies is modelled as follows.

  \<^item> Integer-valued numbers (day numbers, receipt counts, time values in milliseconds, the
    \<open>hours\<close> arguments, which both call sites pass as integer literals) are \<open>nat\<close> or
    \<open>int\<close>, taken exact.
  \<^item> Reward amounts are IEEE binary64 values: \<open>jsnum\<close> holds the finite doubles as
    rationals, the two infinities and NaN, and every arithmetic operation rounds to nearest,
    ties to even. The sign of zero is not represented.
  \<^item> A \<open>Date\<close> is \<open>int option\<close>: a time value in milliseconds since the epoch, or
    \<open>None\<close> for an invalid date. \<open>toISOString\<close> of an invalid date throws.
  \<^item> An exception is a value \<open>Inl e\<close> of the result type \<open>error + 'a\<close>.
  \<^item> A \<open>Map\<close> is an association list in insertion order, a \<open>Set\<close> a duplicate-free list
    in insertion order.
\<close>

subsection \<open>Numbers\<close>

datatype jsnum = Num rat | PosInf | NegInf | NaN

fun bitLength :: "nat \<Rightarrow> nat" where
  "bitLength n = (if n = 0 then 0 else Suc (bitLength (n div 2)))"

declare bitLength.simps [simp del]

lemma bitLength_0 [simp]: "bitLength 0 = 0"
  by (simp add: bitLength.simps)

lemma bitLength_1 [simp]: "bitLength (Suc 0) = 1"
  by (simp add: bitLength.simps [of "Suc 0"])

lemma bitLength_numeral [simp]: "bitLength (numeral k) = Suc (bitLength (numeral k div 2))"
  by (simp add: bitLength.simps [of "numeral k"])

definition pow2 :: "int \<Rightarrow> rat" where
  "pow2 e = (if 0 \<le> e then 2 ^ nat e else 1 / 2 ^ nat (- e))"

text \<open>For \<open>q > 0\<close>, the exponent \<open>e\<close> with \<open>2 ^ e \<le> q < 2 ^ (e + 1)\<close>.\<close>

definition floorLog2 :: "rat \<Rightarrow> int" where
  "floorLog2 q =
     (if 1 \<le> q then int (bitLength (nat \<lfloor>q\<rfloor>)) - 1
      else - int (bitLength (nat (\<lceil>1 / q\<rceil> - 1))))"

definition roundHalfEven :: "rat \<Rightarrow> int" where
  "roundHalfEven q =
     (let f = \<lfloor>q\<rfloor>; r = q - of_int f
      in if r < 1 / 2 then f else if 1 / 2 < r then f + 1 else if even f then f else f + 1)"

text \<open>
  Rounding of a real result to binary64: 53 significant bits, gradual underflow below
  \<open>2 ^ -1022\<close>, overflow to an infinity from \<open>2 ^ 1024\<close> on.
\<close>

definition fl :: "rat \<Rightarrow> jsnum" where
  "fl q =
     (if q = 0 then Num 0
      else let a = \<bar>q\<bar>;
               p = max (floorLog2 a - 52) (- 1074);
               r = of_int (roundHalfEven (a / pow2 p)) * pow2 p
           in if pow2 1024 \<le> r then (if 0 < q then PosInf else NegInf)
              else Num (if 0 < q then r else - r))"

fun jsadd :: "jsnum \<Rightarrow> jsnum \<Rightarrow> jsnum" where
  "jsadd (Num a) (Num b) = fl (a + b)"
| "jsadd NaN _ = NaN"
| "jsadd _ NaN = NaN"
| "jsadd PosInf NegInf = NaN"
| "jsadd NegInf PosInf = NaN"
| "jsadd PosInf _ = PosInf"
| "jsadd NegInf _ = NegInf"
| "jsadd _ PosInf = PosInf"
| "jsadd _ NegInf = NegInf"

fun jsneg :: "jsnum \<Rightarrow> jsnum" where
  "jsneg (Num a) = Num (- a)"
| "jsneg PosInf = NegInf"
| "jsneg NegInf = PosInf"
| "jsneg NaN = NaN"

fun jsmul :: "jsnum \<Rightarrow> jsnum \<Rightarrow> jsnum" where
  "jsmul (Num a) (Num b) = fl (a * b)"
| "jsmul NaN _ = NaN"
| "jsmul _ NaN = NaN"
| "jsmul (Num a) y = (if a = 0 then NaN else if 0 < a then y else jsneg y)"
| "jsmul x (Num b) = (if b = 0 then NaN else if 0 < b then x else jsneg x)"
| "jsmul PosInf y = y"
| "jsmul NegInf y = jsneg y"

fun jsdiv :: "jsnum \<Rightarrow> jsnum \<Rightarrow> jsnum" where
  "jsdiv (Num a) (Num b) =
     (if b = 0 then (if a = 0 then NaN else if 0 < a then PosInf else NegInf) else fl (a / b))"
| "jsdiv NaN _ = NaN"
| "jsdiv _ NaN = NaN"
| "jsdiv (Num a) _ = Num 0"
| "jsdiv x (Num b) = (if 0 \<le> b then x else jsneg x)"
| "jsdiv _ _ = NaN"

text \<open>\<open>x || 0\<close> on a number or \<open>undefined\<close>: zero, NaN and \<open>undefined\<close> are falsy.\<close>

fun orZero :: "jsnum option \<Rightarrow> jsnum" where
  "orZero None = Num 0"
| "orZero (Some NaN) = Num 0"
| "orZero (Some x) = x"

text \<open>\<open>rates[i]\<close>: \<open>undefined\<close> outside the array.\<close>

definition index :: "'a list \<Rightarrow> int \<Rightarrow> 'a option" where
  "index xs i = (if 0 \<le> i \<and> i < int (length xs) then Some (xs ! nat i) else None)"

definition million :: jsnum where
  "million = Num 1000000"

lemma floor_rat_numeral: "\<lfloor>(numeral a :: rat) / numeral b\<rfloor> = numeral a div numeral b"
  using floor_divide_of_int_eq [of "numeral a" "numeral b", where ?'a = rat] by simp

lemma ceiling_rat_numeral:
  "\<lceil>(numeral a :: rat) / numeral b\<rceil> = - (- numeral a div numeral b)"
  using ceiling_divide_eq_div [of "numeral a" "numeral b", where ?'a = rat] by simp

lemmas fl_eval =
  fl_def floorLog2_def roundHalfEven_def pow2_def Let_def floor_rat_numeral ceiling_rat_numeral

subsection \<open>Strings and decimal numerals\<close>

definition isDigit :: "char \<Rightarrow> bool" where
  "isDigit c = (c \<in> set ''0123456789'')"

definition digitChar :: "nat \<Rightarrow> char" where
  "digitChar n = ''0123456789'' ! (n mod 10)"

definition digitVal :: "char \<Rightarrow> nat" where
  "digitVal c = of_char c - 48"

text \<open>\<open>n.toString()\<close> for a non-negative integer.\<close>

fun showNat :: "nat \<Rightarrow> string" where
  "showNat n = (if n < 10 then [digitChar n] else showNat (n div 10) @ [digitChar (n mod 10)])"

declare showNat.simps [simp del]

lemma showNat_0 [simp]: "showNat 0 = [digitChar 0]"
  by (simp add: showNat.simps)

lemma showNat_1 [simp]: "showNat (Suc 0) = [digitChar 1]"
  by (simp add: showNat.simps [of "Suc 0"])

lemma showNat_numeral [simp]:
  "showNat (numeral k) =
     (if (numeral k :: nat) < 10 then [digitChar (numeral k)]
      else showNat (numeral k div 10) @ [digitChar (numeral k mod 10)])"
  by (simp add: showNat.simps [of "numeral k"])

text \<open>\<open>parseInt(ds, 10)\<close> on a string of decimal digits.\<close>

definition readNat :: "string \<Rightarrow> nat" where
  "readNat ds = foldl (\<lambda>n c. 10 * n + digitVal c) 0 ds"

definition padStart :: "nat \<Rightarrow> char \<Rightarrow> string \<Rightarrow> string" where
  "padStart n c s = replicate (n - length s) c @ s"

text \<open>\<open>s.split(c)[0]\<close>: the part of \<open>s\<close> before the first \<open>c\<close>.\<close>

definition splitFirst :: "char \<Rightarrow> string \<Rightarrow> string" where
  "splitFirst c s = takeWhile (\<lambda>x. x \<noteq> c) s"

subsection \<open>Dates\<close>

datatype error = InvalidChallengeId string | RangeError

definition msPerDay :: int where
  "msPerDay = 86400000"

definition msPerHour :: int where
  "msPerHour = 3600000"

definition maxTime :: int where
  "maxTime = 8640000000000000"

text \<open>A time value outside \<open>\<plusminus>maxTime\<close> makes the date invalid.\<close>

definition timeClip :: "int \<Rightarrow> int option" where
  "timeClip t = (if \<bar>t\<bar> \<le> maxTime then Some t else None)"

text \<open>The day number (days since the epoch) on which year \<open>y\<close> starts.\<close>

definition dayFromYear :: "int \<Rightarrow> int" where
  "dayFromYear y =
     365 * (y - 1970) + (y - 1969) div 4 - (y - 1901) div 100 + (y - 1601) div 400"

definition inLeapYear :: "int \<Rightarrow> bool" where
  "inLeapYear y = (y mod 4 = 0 \<and> (y mod 100 \<noteq> 0 \<or> y mod 400 = 0))"

lemma dayFromYear_step: "dayFromYear y < dayFromYear (y + 1)"
proof -
  have lin: "365 * (y - 1970) + a - b + c < 365 * (y + 1 - 1970) + a' - b' + c'"
    if "a \<le> a'" "b' \<le> b + 1" "c \<le> c'" for a b c a' b' c' :: int
    using that by arith
  have "(y + 1 - 1901) div 100 \<le> (y - 1901 + 100) div 100"
    by (rule zdiv_mono1) simp_all
  then have "(y + 1 - 1901) div 100 \<le> (y - 1901) div 100 + 1"
    by simp
  then show ?thesis
    unfolding dayFromYear_def
    by (intro lin zdiv_mono1) simp_all
qed

function yearSearch :: "int \<Rightarrow> int \<Rightarrow> int" where
  "yearSearch y d = (if dayFromYear (y + 1) \<le> d then yearSearch (y + 1) d else y)"
  by pat_completeness auto
termination
proof (relation "measure (\<lambda>(y, d). nat (d + 1 - dayFromYear (y + 1)))")
  show "wf (measure (\<lambda>(y, d). nat (d + 1 - dayFromYear (y + 1))))"
    by simp
next
  fix y d :: int
  assume "dayFromYear (y + 1) \<le> d"
  moreover have "dayFromYear (y + 1) < dayFromYear (y + 1 + 1)"
    by (rule dayFromYear_step)
  ultimately show "((y + 1, d), (y, d)) \<in> measure (\<lambda>(y, d). nat (d + 1 - dayFromYear (y + 1)))"
    by simp
qed

declare yearSearch.simps [simp del]

lemma yearSearch_numeral [simp]:
  "yearSearch (numeral y) (numeral d) =
     (if dayFromYear (numeral y + 1) \<le> numeral d then yearSearch (numeral y + 1) (numeral d)
      else numeral y)"
  by (simp add: yearSearch.simps [of "numeral y"])

text \<open>The year containing day \<open>d\<close>: the largest \<open>y\<close> with \<open>dayFromYear y \<le> d\<close>.\<close>

definition yearFromDay :: "int \<Rightarrow> int" where
  "yearFromDay d = yearSearch (1970 + (if 0 \<le> d then d div 366 else d div 365)) d"

text \<open>Days of the year before month \<open>m\<close> (0 = January).\<close>

definition monthStart :: "bool \<Rightarrow> nat \<Rightarrow> int" where
  "monthStart leap m =
     (if m = 0 then 0 else if m = 1 then 31
      else [59, 90, 120, 151, 181, 212, 243, 273, 304, 334] ! (m - 2) + (if leap then 1 else 0))"

definition monthFromDay :: "bool \<Rightarrow> int \<Rightarrow> nat" where
  "monthFromDay leap dwy =
     (let l = (if leap then 1 else 0) in
      if dwy < 31 then 0 else if dwy < 59 + l then 1 else if dwy < 90 + l then 2
      else if dwy < 120 + l then 3 else if dwy < 151 + l then 4 else if dwy < 181 + l then 5
      else if dwy < 212 + l then 6 else if dwy < 243 + l then 7 else if dwy < 273 + l then 8
      else if dwy < 304 + l then 9 else if dwy < 334 + l then 10 else 11)"

definition yearString :: "int \<Rightarrow> string" where
  "yearString y =
     (if 0 \<le> y \<and> y \<le> 9999 then padStart 4 CHR ''0'' (showNat (nat y))
      else (if y < 0 then ''-'' else ''+'') @ padStart 6 CHR ''0'' (showNat (nat \<bar>y\<bar>)))"

definition pad2 :: "int \<Rightarrow> string" where
  "pad2 n = padStart 2 CHR ''0'' (showNat (nat n))"

text \<open>The \<open>YYYY-MM-DD\<close> part of \<open>toISOString\<close>, from the day number.\<close>

definition isoDate :: "int \<Rightarrow> string" where
  "isoDate d =
     (let y = yearFromDay d; dwy = d - dayFromYear y; leap = inLeapYear y;
          m = monthFromDay leap dwy
      in yearString y @ ''-'' @ pad2 (int m + 1) @ ''-'' @ pad2 (dwy - monthStart leap m + 1))"

definition isoTime :: "int \<Rightarrow> string" where
  "isoTime t =
     pad2 (t div msPerHour mod 24) @ '':'' @ pad2 (t div 60000 mod 60) @ '':'' @
     pad2 (t div 1000 mod 60) @ ''.'' @ padStart 3 CHR ''0'' (showNat (nat (t mod 1000))) @ ''Z''"

definition toISOString :: "int option \<Rightarrow> error + string" where
  "toISOString date =
     (case date of
        None \<Rightarrow> Inl RangeError
      | Some t \<Rightarrow> Inr (isoDate (t div msPerDay) @ ''T'' @ isoTime t))"

subsection \<open>Day and date of a challenge identifier\<close>

text \<open>
  A match of \<open>/\*\*D(\d+)C/\<close> at the start of the string: the captured digits. The digits
  are taken greedily; a shorter run of digits is followed by a digit, never by \<open>C\<close>.
\<close>

fun matchHere :: "string \<Rightarrow> string option" where
  "matchHere (c1 # c2 # c3 # rest) =
     (if c1 = CHR ''*'' \<and> c2 = CHR ''*'' \<and> c3 = CHR ''D'' \<and> takeWhile isDigit rest \<noteq> []
         \<and> take 1 (dropWhile isDigit rest) = ''C''
      then Some (takeWhile isDigit rest) else None)"
| "matchHere _ = None"

text \<open>\<open>challengeId.match(/\*\*D(\d+)C/)\<close>: the capture of the leftmost match.\<close>

fun regexMatch :: "string \<Rightarrow> string option" where
  "regexMatch [] = None"
| "regexMatch (c # cs) =
     (case matchHere (c # cs) of Some ds \<Rightarrow> Some ds | None \<Rightarrow> regexMatch cs)"

definition dayFromChallengeId :: "string \<Rightarrow> error + nat" where
  "dayFromChallengeId challengeId =
     (case regexMatch challengeId of
        None \<Rightarrow> Inl (InvalidChallengeId challengeId)
      | Some ds \<Rightarrow> Inr (readNat ds))"

text \<open>The time value of \<open>new Date('2025-10-30T00:00:00Z')\<close>.\<close>

definition tgeStart :: int where
  "tgeStart = 1761782400000"

definition dateFromChallengeId :: "string \<Rightarrow> error + string" where
  "dateFromChallengeId challengeId =
     (case dayFromChallengeId challengeId of
        Inl e \<Rightarrow> Inl e
      | Inr day \<Rightarrow>
          (case toISOString (timeClip (tgeStart + (int day - 1) * 24 * 60 * 60 * 1000)) of
             Inl e \<Rightarrow> Inl e
           | Inr s \<Rightarrow> Inr (splitFirst CHR ''T'' s)))"

subsection \<open>Receipts and statistics records\<close>

record ReceiptEntry =
  ts :: string
  address :: string
  challenge_id :: string
  nonce :: string
  hash :: "string option"

record DayStats =
  day :: nat
  date :: string
  receipts :: nat
  addresses :: "nat option"
  star :: jsnum
  night :: jsnum

record HourStats =
  hour :: string
  receipts :: nat
  addresses :: nat
  star :: jsnum
  night :: jsnum

record AddressStats =
  address :: string
  days :: "DayStats list"
  totalReceipts :: nat
  totalStar :: jsnum
  totalNight :: jsnum
  firstSolution :: "string option"
  lastSolution :: "string option"

record GrandTotal =
  receipts :: nat
  star :: jsnum
  night :: jsnum

record GlobalStats =
  totalReceipts :: nat
  totalAddresses :: nat
  days :: "DayStats list"
  byAddress :: "AddressStats list"
  startDate :: "string option"
  endDate :: "string option"
  grandTotal :: GrandTotal

subsection \<open>Loops that may throw\<close>

text \<open>A loop that pushes \<open>f x\<close> for each \<open>x\<close> and stops at the first exception.\<close>

fun mapE :: "('a \<Rightarrow> error + 'b) \<Rightarrow> 'a list \<Rightarrow> error + 'b list" where
  "mapE f [] = Inr []"
| "mapE f (x # xs) =
     (case f x of
        Inl e \<Rightarrow> Inl e
      | Inr y \<Rightarrow> (case mapE f xs of Inl e \<Rightarrow> Inl e | Inr ys \<Rightarrow> Inr (y # ys)))"

text \<open>\<open>xs.filter(p)\<close> where the predicate may throw.\<close>

fun filterE :: "('a \<Rightarrow> error + bool) \<Rightarrow> 'a list \<Rightarrow> error + 'a list" where
  "filterE p [] = Inr []"
| "filterE p (x # xs) =
     (case p x of
        Inl e \<Rightarrow> Inl e
      | Inr b \<Rightarrow>
          (case filterE p xs of
             Inl e \<Rightarrow> Inl e
           | Inr ys \<Rightarrow> Inr (if b then x # ys else ys)))"

subsection \<open>computeStats\<close>

text \<open>\<open>rates[day - 1] || 0\<close>\<close>

definition starPerReceipt :: "jsnum list \<Rightarrow> nat \<Rightarrow> jsnum" where
  "starPerReceipt rates d = orZero (index rates (int d - 1))"

text \<open>\<open>dayMap.set(day, (dayMap.get(day) || 0) + 1)\<close>\<close>

definition countDay :: "nat \<Rightarrow> (nat \<times> nat) list \<Rightarrow> (nat \<times> nat) list" where
  "countDay d dayMap =
     AList.update d ((case map_of dayMap d of None \<Rightarrow> 0 | Some c \<Rightarrow> c) + 1) dayMap"

text \<open>
  The first loop over the receipts. \<open>adm\<close> is \<open>addressDayMap\<close>, \<open>ats\<close> is
  \<open>addressTimestamps\<close>; the inner map and the timestamp array are mutated in place, so
  their entries keep their position.
\<close>

fun groupByAddress ::
  "ReceiptEntry list \<Rightarrow> (string \<times> (nat \<times> nat) list) list \<Rightarrow> (string \<times> string list) list
    \<Rightarrow> error + (string \<times> (nat \<times> nat) list) list \<times> (string \<times> string list) list" where
  "groupByAddress [] adm ats = Inr (adm, ats)"
| "groupByAddress (r # rs) adm ats =
     (case dayFromChallengeId (challenge_id r) of
        Inl e \<Rightarrow> Inl e
      | Inr d \<Rightarrow>
          let a = ReceiptEntry.address r;
              adm1 = (if map_of adm a = None then AList.update a [] adm else adm);
              dayMap = (case map_of adm1 a of None \<Rightarrow> [] | Some m \<Rightarrow> m);
              adm2 = AList.update a (countDay d dayMap) adm1;
              ats1 = (if map_of ats a = None then AList.update a [] ats else ats);
              stamps = (case map_of ats1 a of None \<Rightarrow> [] | Some l \<Rightarrow> l);
              ats2 = AList.update a (stamps @ [ts r]) ats1
          in groupByAddress rs adm2 ats2)"

text \<open>The challenge identifier that computeStats rebuilds from a day number.\<close>

definition challengeIdOfDay :: "nat \<Rightarrow> string" where
  "challengeIdOfDay d = ''**D'' @ padStart 2 CHR ''0'' (showNat d) @ ''C00''"

text \<open>The body of the loop over one address's \<open>dayMap\<close>.\<close>

definition addressDay :: "jsnum list \<Rightarrow> nat \<times> nat \<Rightarrow> error + DayStats" where
  "addressDay rates e =
     (case dateFromChallengeId (challengeIdOfDay (fst e)) of
        Inl x \<Rightarrow> Inl x
      | Inr dt \<Rightarrow>
          let st = jsmul (Num (of_nat (snd e))) (starPerReceipt rates (fst e))
          in Inr \<lparr>day = fst e, date = dt, receipts = snd e, addresses = None,
                  star = st, night = jsdiv st million\<rparr>)"

text \<open>\<open>days.sort((a, b) => b.day - a.day)\<close>; \<open>Array.prototype.sort\<close> is stable.\<close>

definition sortDays :: "DayStats list \<Rightarrow> DayStats list" where
  "sortDays ds = sort_key (\<lambda>d. - int (day d)) ds"

text \<open>The body of the loop over \<open>addressDayMap\<close>.\<close>

definition addressEntry ::
  "jsnum list \<Rightarrow> (string \<times> string list) list \<Rightarrow> string \<times> (nat \<times> nat) list
    \<Rightarrow> error + AddressStats" where
  "addressEntry rates ats e =
     (case mapE (addressDay rates) (snd e) of
        Inl x \<Rightarrow> Inl x
      | Inr ds \<Rightarrow>
          let tr = foldl (\<lambda>n d. n + DayStats.receipts d) 0 ds;
              tst = foldl (\<lambda>s d. jsadd s (DayStats.star d)) (Num 0) ds;
              timestamps = sort (case map_of ats (fst e) of None \<Rightarrow> [] | Some l \<Rightarrow> l)
          in Inr \<lparr>address = fst e, days = sortDays ds, totalReceipts = tr, totalStar = tst,
                  totalNight = jsdiv tst million,
                  firstSolution = (if timestamps = [] then None else Some (hd timestamps)),
                  lastSolution = (if timestamps = [] then None else Some (last timestamps))\<rparr>)"

text \<open>\<open>byAddress.sort((a, b) => b.totalReceipts - a.totalReceipts)\<close>\<close>

definition sortAddresses :: "AddressStats list \<Rightarrow> AddressStats list" where
  "sortAddresses as = sort_key (\<lambda>a. - int (AddressStats.totalReceipts a)) as"

text \<open>\<open>set.add(x)\<close> on a set kept as a duplicate-free list.\<close>

definition setAdd :: "'a \<Rightarrow> 'a list \<Rightarrow> 'a list" where
  "setAdd x xs = (if x \<in> set xs then xs else xs @ [x])"

text \<open>The second loop over the receipts, filling \<open>globalDayMap\<close>.\<close>

fun groupByDay ::
  "ReceiptEntry list \<Rightarrow> (nat \<times> string list) list \<Rightarrow> error + (nat \<times> string list) list" where
  "groupByDay [] gdm = Inr gdm"
| "groupByDay (r # rs) gdm =
     (case dayFromChallengeId (challenge_id r) of
        Inl e \<Rightarrow> Inl e
      | Inr d \<Rightarrow>
          let gdm1 = (if map_of gdm d = None then AList.update d [] gdm else gdm);
              addrs = (case map_of gdm1 d of None \<Rightarrow> [] | Some l \<Rightarrow> l)
          in groupByDay rs (AList.update d (setAdd (ReceiptEntry.address r) addrs) gdm1))"

text \<open>
  The body of the loop over \<open>globalDayMap\<close>. The filter calls \<open>dayFromChallengeId\<close> on
  every receipt; it cannot throw there, the first loop having decoded them all.
\<close>

definition globalDay ::
  "ReceiptEntry list \<Rightarrow> jsnum list \<Rightarrow> nat \<times> string list \<Rightarrow> error + DayStats" where
  "globalDay rs rates e =
     (case dateFromChallengeId (challengeIdOfDay (fst e)) of
        Inl x \<Rightarrow> Inl x
      | Inr dt \<Rightarrow>
          let receiptsThisDay =
                length (filter (\<lambda>r. dayFromChallengeId (challenge_id r) = Inr (fst e)) rs);
              st = jsmul (Num (of_nat receiptsThisDay)) (starPerReceipt rates (fst e))
          in Inr \<lparr>day = fst e, date = dt, receipts = receiptsThisDay,
                  addresses = Some (length (snd e)), star = st, night = jsdiv st million\<rparr>)"

definition emptyStats :: GlobalStats where
  "emptyStats =
     \<lparr>totalReceipts = 0, totalAddresses = 0, days = [], byAddress = [],
      startDate = None, endDate = None,
      grandTotal = \<lparr>receipts = 0, star = Num 0, night = Num 0\<rparr>\<rparr>"

definition computeStats :: "ReceiptEntry list \<Rightarrow> jsnum list \<Rightarrow> error + GlobalStats" where
  "computeStats rs rates =
     (if length rs = 0 then Inr emptyStats
      else case groupByAddress rs [] [] of
        Inl x \<Rightarrow> Inl x
      | Inr (adm, ats) \<Rightarrow>
     (case mapE (addressEntry rates ats) adm of
        Inl x \<Rightarrow> Inl x
      | Inr unsorted \<Rightarrow>
     (case groupByDay rs [] of
        Inl x \<Rightarrow> Inl x
      | Inr gdm \<Rightarrow>
     (case mapE (globalDay rs rates) gdm of
        Inl x \<Rightarrow> Inl x
      | Inr ds \<Rightarrow>
          let byAddr = sortAddresses unsorted;
              sorted = sortDays ds
          in Inr \<lparr>totalReceipts = length rs, totalAddresses = length adm,
                  days = sorted, byAddress = byAddr,
                  startDate = (if 0 < length sorted then Some (date (last sorted)) else None),
                  endDate = (if 0 < length sorted then Some (date (hd sorted)) else None),
                  grandTotal =
                    \<lparr>receipts = length rs,
                     star = foldl (\<lambda>s a. jsadd s (totalStar a)) (Num 0) byAddr,
                     night = foldl (\<lambda>s a. jsadd s (totalNight a)) (Num 0) byAddr\<rparr>\<rparr>))))"

subsection \<open>The host: clock, time zone and date parser\<close>

text \<open>
  \<open>now\<close> is the time value of \<open>new Date()\<close> and \<open>Date.now()\<close>, \<open>tzOffset\<close> the offset of
  local time from UTC in milliseconds, taken constant over the hours looked at, and
  \<open>dateParse\<close> the runtime's \<open>Date.parse\<close> (\<open>None\<close> for NaN).
\<close>

record host =
  dateParse :: "string \<Rightarrow> int option"
  now :: int
  tzOffset :: int

text \<open>\<open>new Date(s)\<close>\<close>

definition newDate :: "host \<Rightarrow> string \<Rightarrow> int option" where
  "newDate h s = (case dateParse h s of None \<Rightarrow> None | Some t \<Rightarrow> timeClip t)"

text \<open>\<open>d.getHours()\<close> of a valid date: the hour of the day in local time.\<close>

definition getHours :: "host \<Rightarrow> int \<Rightarrow> int" where
  "getHours h t = (t + tzOffset h) div msPerHour mod 24"

text \<open>
  \<open>d.setHours(hr, 0, 0, 0)\<close> on a copy of a valid date: the local day of \<open>t\<close> at hour \<open>hr\<close>,
  back in UTC and clipped.
\<close>

definition setHours :: "host \<Rightarrow> int \<Rightarrow> int \<Rightarrow> int option" where
  "setHours h t hr =
     timeClip ((t + tzOffset h) div msPerDay * msPerDay + hr * msPerHour - tzOffset h)"

text \<open>\<open>a >= b\<close> and \<open>a < b\<close> on dates; a comparison with an invalid date is false.\<close>

fun dateGe :: "int option \<Rightarrow> int option \<Rightarrow> bool" where
  "dateGe (Some a) (Some b) = (b \<le> a)"
| "dateGe _ _ = False"

fun dateLt :: "int option \<Rightarrow> int option \<Rightarrow> bool" where
  "dateLt (Some a) (Some b) = (a < b)"
| "dateLt _ _ = False"

subsection \<open>getTodayStats\<close>

definition isToday :: "string \<Rightarrow> ReceiptEntry \<Rightarrow> error + bool" where
  "isToday today r =
     (case dateFromChallengeId (challenge_id r) of
        Inl x \<Rightarrow> Inl x
      | Inr dt \<Rightarrow> Inr (dt = today))"

definition getTodayStats :: "host \<Rightarrow> ReceiptEntry list \<Rightarrow> jsnum list \<Rightarrow> error + DayStats option" where
  "getTodayStats h rs rates =
     (case toISOString (timeClip (now h)) of
        Inl x \<Rightarrow> Inl x
      | Inr s \<Rightarrow>
     (case filterE (isToday (splitFirst CHR ''T'' s)) rs of
        Inl x \<Rightarrow> Inl x
      | Inr todayReceipts \<Rightarrow>
     (case todayReceipts of
        [] \<Rightarrow> Inr None
      | r0 # _ \<Rightarrow>
     (case dayFromChallengeId (challenge_id r0) of
        Inl x \<Rightarrow> Inl x
      | Inr d \<Rightarrow>
          let st = jsmul (Num (of_nat (length todayReceipts))) (starPerReceipt rates d)
          in Inr (Some \<lparr>day = d, date = splitFirst CHR ''T'' s,
                        receipts = length todayReceipts,
                        addresses = Some (length (remdups (map ReceiptEntry.address todayReceipts))),
                        star = st, night = jsdiv st million\<rparr>)))))"

subsection \<open>getSolutionsPerHour\<close>

definition isRecent :: "host \<Rightarrow> int \<Rightarrow> ReceiptEntry \<Rightarrow> bool" where
  "isRecent h cutoff r = (case newDate h (ts r) of None \<Rightarrow> False | Some t \<Rightarrow> cutoff \<le> t)"

definition getSolutionsPerHour :: "host \<Rightarrow> ReceiptEntry list \<Rightarrow> int \<Rightarrow> jsnum" where
  "getSolutionsPerHour h rs hours =
     (if length rs = 0 then Num 0
      else let cutoff = now h - hours * 60 * 60 * 1000;
               recentReceipts = filter (isRecent h cutoff) rs
           in jsdiv (Num (of_nat (length recentReceipts))) (Num (of_int hours)))"

subsection \<open>computeHourlyStats and computeLastNHours\<close>

definition inWindow :: "host \<Rightarrow> int option \<Rightarrow> int option \<Rightarrow> ReceiptEntry \<Rightarrow> bool" where
  "inWindow h lo hi r = (dateGe (newDate h (ts r)) lo \<and> dateLt (newDate h (ts r)) hi)"

text \<open>The loop that adds up each receipt's own rate.\<close>

fun starLoop :: "jsnum list \<Rightarrow> ReceiptEntry list \<Rightarrow> jsnum \<Rightarrow> error + jsnum" where
  "starLoop rates [] acc = Inr acc"
| "starLoop rates (r # rs) acc =
     (case dayFromChallengeId (challenge_id r) of
        Inl x \<Rightarrow> Inl x
      | Inr d \<Rightarrow> starLoop rates rs (jsadd acc (starPerReceipt rates d)))"

definition zeroHour :: "string \<Rightarrow> HourStats" where
  "zeroHour s = \<lparr>hour = s, receipts = 0, addresses = 0, star = Num 0, night = Num 0\<rparr>"

definition computeHourlyStats ::
  "host \<Rightarrow> ReceiptEntry list \<Rightarrow> jsnum list \<Rightarrow> error + HourStats option" where
  "computeHourlyStats h rs rates =
     (if length rs = 0 then Inr None
      else
        let previousHourStart = setHours h (now h) (getHours h (now h) - 1);
            previousHourEnd = setHours h (now h) (getHours h (now h));
            hourReceipts = filter (inWindow h previousHourStart previousHourEnd) rs
        in if length hourReceipts = 0
           then (case toISOString previousHourStart of
                   Inl x \<Rightarrow> Inl x
                 | Inr s \<Rightarrow> Inr (Some (zeroHour s)))
           else (case starLoop rates hourReceipts (Num 0) of
                   Inl x \<Rightarrow> Inl x
                 | Inr acc \<Rightarrow>
                (case toISOString previousHourStart of
                   Inl x \<Rightarrow> Inl x
                 | Inr s \<Rightarrow>
                     Inr (Some \<lparr>hour = s, receipts = length hourReceipts,
                                 addresses = length (remdups (map ReceiptEntry.address hourReceipts)),
                                 star = acc, night = jsdiv acc million\<rparr>))))"

text \<open>The body of the loop of computeLastNHours, for the loop index \<open>i\<close>.\<close>

definition hourEntry :: "host \<Rightarrow> ReceiptEntry list \<Rightarrow> jsnum list \<Rightarrow> int \<Rightarrow> error + HourStats" where
  "hourEntry h rs rates i =
     (let hourStart = setHours h (now h) (getHours h (now h) - i - 1);
          hourEnd = setHours h (now h) (getHours h (now h) - i);
          hourReceipts = filter (inWindow h hourStart hourEnd) rs
      in case starLoop rates hourReceipts (Num 0) of
           Inl x \<Rightarrow> Inl x
         | Inr acc \<Rightarrow>
        (case toISOString hourStart of
           Inl x \<Rightarrow> Inl x
         | Inr s \<Rightarrow>
             Inr \<lparr>hour = s, receipts = length hourReceipts,
                   addresses = length (remdups (map ReceiptEntry.address hourReceipts)),
                   star = acc, night = jsdiv acc million\<rparr>))"

text \<open>\<open>for (let i = ...; i >= 0; i--)\<close>, pushing one entry per round.\<close>

function lastNLoop :: "host \<Rightarrow> ReceiptEntry list \<Rightarrow> jsnum list \<Rightarrow> int \<Rightarrow> error + HourStats list" where
  "lastNLoop h rs rates i =
     (if i < 0 then Inr []
      else case hourEntry h rs rates i of
             Inl x \<Rightarrow> Inl x
           | Inr e \<Rightarrow>
               (case lastNLoop h rs rates (i - 1) of
                  Inl x \<Rightarrow> Inl x
                | Inr es \<Rightarrow> Inr (e # es)))"
  by pat_completeness auto
termination
  by (relation "measure (\<lambda>(h, rs, rates, i). nat (i + 1))") auto

declare lastNLoop.simps [simp del]

definition computeLastNHours ::
  "host \<Rightarrow> ReceiptEntry list \<Rightarrow> jsnum list \<Rightarrow> int \<Rightarrow> error + HourStats list" where
  "computeLastNHours h rs rates hours =
     (if length rs = 0 \<or> hours \<le> 0 then Inr [] else lastNLoop h rs rates (hours - 1))"

section \<open>Properties of the date functions\<close>

subsection \<open>Decimal numerals\<close>

lemma digit_cases: "k < 10 \<Longrightarrow> k \<in> {0, 1, 2, 3, 4, 5, 6, 7, 8, 9::nat}"
  by auto

lemma digitVal_digitChar: "digitVal (digitChar n) = n mod 10"
proof -
  have "n mod 10 \<in> {0, 1, 2, 3, 4, 5, 6, 7, 8, 9::nat}"
    by (rule digit_cases) simp
  then show ?thesis
    unfolding digitChar_def digitVal_def by (elim insertE emptyE) simp_all
qed

lemma isDigit_digitChar: "isDigit (digitChar n)"
proof -
  have "n mod 10 \<in> {0, 1, 2, 3, 4, 5, 6, 7, 8, 9::nat}"
    by (rule digit_cases) simp
  then show ?thesis
    unfolding digitChar_def isDigit_def by (elim insertE emptyE) simp_all
qed

lemma readNat_snoc: "readNat (ds @ [c]) = 10 * readNat ds + digitVal c"
  by (simp add: readNat_def)

lemma readNat_showNat: "readNat (showNat n) = n"
proof (induction n rule: showNat.induct)
  case (1 n)
  show ?case
  proof (cases "n < 10")
    case True
    then show ?thesis
      by (simp add: showNat.simps [of n] readNat_def digitVal_digitChar)
  next
    case False
    with 1 show ?thesis
      by (simp add: showNat.simps [of n] readNat_snoc digitVal_digitChar)
  qed
qed

lemma digits_showNat: "\<forall>c\<in>set (showNat n). isDigit c"
proof (induction n rule: showNat.induct)
  case (1 n)
  then show ?case
    by (cases "n < 10") (auto simp: showNat.simps [of n] isDigit_digitChar)
qed

lemma showNat_nonempty: "showNat n \<noteq> []"
  by (cases "n < 10") (simp_all add: showNat.simps [of n])

lemma readNat_zeros: "readNat (replicate k CHR ''0'' @ ds) = readNat ds"
  unfolding readNat_def by (induction k) (simp_all add: digitVal_def)

lemma readNat_padStart: "readNat (padStart k CHR ''0'' (showNat n)) = n"
  by (simp add: padStart_def readNat_zeros readNat_showNat)

lemma digits_padStart: "\<forall>c\<in>set (padStart k CHR ''0'' (showNat n)). isDigit c"
proof -
  have "isDigit CHR ''0''"
    by (simp add: isDigit_def)
  then show ?thesis
    using digits_showNat [of n] by (auto simp: padStart_def)
qed

lemma padStart_nonempty: "padStart k c (showNat n) \<noteq> []"
  by (simp add: padStart_def showNat_nonempty)

lemma takeWhile_digits:
  "\<forall>c\<in>set ds. isDigit c \<Longrightarrow> \<not> isDigit x \<Longrightarrow> takeWhile isDigit (ds @ x # rest) = ds"
  by (induction ds) auto

lemma dropWhile_digits:
  "\<forall>c\<in>set ds. isDigit c \<Longrightarrow> \<not> isDigit x \<Longrightarrow> dropWhile isDigit (ds @ x # rest) = x # rest"
  by (induction ds) auto

lemma dayFromChallengeId_challengeIdOfDay: "dayFromChallengeId (challengeIdOfDay d) = Inr d"
proof -
  let ?ds = "padStart 2 CHR ''0'' (showNat d)"
  have C: "\<not> isDigit CHR ''C''"
    by (simp add: isDigit_def)
  have tw: "takeWhile isDigit (?ds @ ''C00'') = ?ds"
    using takeWhile_digits [OF digits_padStart C, of 2 d "''00''"] by simp
  have dw: "dropWhile isDigit (?ds @ ''C00'') = ''C00''"
    using dropWhile_digits [OF digits_padStart C, of 2 d "''00''"] by simp
  have "regexMatch (challengeIdOfDay d) = Some ?ds"
    by (simp add: challengeIdOfDay_def tw dw padStart_nonempty)
  then show ?thesis
    by (simp add: dayFromChallengeId_def readNat_padStart)
qed



lemma div_lower: "0 < b \<Longrightarrow> b * (x div b) \<le> x" for x b :: int
proof -
  assume "0 < b"
  then have "0 \<le> x mod b"
    by (rule pos_mod_sign)
  moreover have "b * (x div b) = x - x mod b"
    by (simp add: minus_mod_eq_mult_div)
  ultimately show ?thesis
    by simp
qed

lemma div_upper: "0 < b \<Longrightarrow> x < b * (x div b) + b" for x b :: int
proof -
  assume "0 < b"
  then have "x mod b < b"
    by (rule pos_mod_bound)
  moreover have "b * (x div b) = x - x mod b"
    by (simp add: minus_mod_eq_mult_div)
  ultimately show ?thesis
    by simp
qed

lemma leap_lin_pos:
  fixes a b c k :: int
  shows "4 * a \<le> k + 1 \<Longrightarrow> k + 69 < 100 * b + 100 \<Longrightarrow> 400 * c \<le> k + 369 \<Longrightarrow> 2 \<le> k
    \<Longrightarrow> a - b + c \<le> k"
  by arith

lemma leap_lin_neg:
  fixes a b c k :: int
  shows "4 * a \<le> k + 1 \<Longrightarrow> k + 69 < 100 * b + 100 \<Longrightarrow> 400 * c \<le> k + 369 \<Longrightarrow> k \<le> - 2
    \<Longrightarrow> a - b + c \<le> 0"
  by arith

lemma leap_count_le:
  fixes k :: int
  assumes "2 \<le> k \<or> k \<le> - 2"
  shows "(k + 1) div 4 - (k + 69) div 100 + (k + 369) div 400 \<le> (if 0 \<le> k then k else 0)"
proof -
  have a: "4 * ((k + 1) div 4) \<le> k + 1"
    by (rule div_lower) simp
  have b: "k + 69 < 100 * ((k + 69) div 100) + 100"
    by (rule div_upper) simp
  have c: "400 * ((k + 369) div 400) \<le> k + 369"
    by (rule div_lower) simp
  from assms show ?thesis
  proof
    assume "2 \<le> k"
    with leap_lin_pos [OF a b c] show ?thesis by simp
  next
    assume "k \<le> - 2"
    with leap_lin_neg [OF a b c] show ?thesis by simp
  qed
qed

lemma dayFromYear_start: "dayFromYear (1970 + (if 0 \<le> d then d div 366 else d div 365)) \<le> d"
proof -
  define k where "k = (if 0 \<le> d then d div 366 else d div 365)"
  have kd: "(if 0 \<le> k then 366 * k else 365 * k) \<le> d"
    using div_lower [of 366 d] div_lower [of 365 d] div_upper [of 365 d] 
    by (auto simp: k_def split: if_splits)
  have k0: "0 \<le> d \<Longrightarrow> 0 \<le> k" "d < 0 \<Longrightarrow> k < 0"
    using div_lower [of 366 d] div_upper [of 366 d] div_lower [of 365 d] div_upper [of 365 d]
    by (auto simp: k_def)
  have L: "(k + 1) div 4 - (k + 69) div 100 + (k + 369) div 400 \<le> (if 0 \<le> k then k else 0)"
  proof (cases "2 \<le> k \<or> k \<le> - 2")
    case True
    then show ?thesis by (rule leap_count_le)
  next
    case False
    then have "k = - 1 \<or> k = 0 \<or> k = 1"
      by auto
    then show ?thesis
      by auto
  qed
  have "dayFromYear (1970 + k) = 365 * k + ((k + 1) div 4 - (k + 69) div 100 + (k + 369) div 400)"
    by (simp add: dayFromYear_def algebra_simps)
  with L kd show ?thesis
    unfolding k_def [symmetric] by (auto split: if_splits)
qed

lemma yearSearch_bounds:
  "dayFromYear y \<le> d \<Longrightarrow>
   dayFromYear (yearSearch y d) \<le> d \<and> d < dayFromYear (yearSearch y d + 1)"
proof (induction y d rule: yearSearch.induct)
  case (1 y d)
  show ?case
  proof (cases "dayFromYear (y + 1) \<le> d")
    case True
    with 1 show ?thesis
      by (simp add: yearSearch.simps [of y d])
  next
    case False
    with 1 show ?thesis
      by (simp add: yearSearch.simps [of y d])
  qed
qed

lemma yearFromDay_bounds:
  "dayFromYear (yearFromDay d) \<le> d \<and> d < dayFromYear (yearFromDay d + 1)"
  unfolding yearFromDay_def by (rule yearSearch_bounds) (rule dayFromYear_start)


subsection \<open>Reading a date back\<close>

definition readYear :: "string \<Rightarrow> int" where
  "readYear s =
     (case s of
        [] \<Rightarrow> 0
      | c # t \<Rightarrow>
          if c = CHR ''-'' then - int (readNat (takeWhile isDigit t))
          else if c = CHR ''+'' then int (readNat (takeWhile isDigit t))
          else int (readNat (takeWhile isDigit s)))"

definition afterYear :: "string \<Rightarrow> string" where
  "afterYear s =
     (case s of
        [] \<Rightarrow> []
      | c # t \<Rightarrow>
          if c = CHR ''-'' \<or> c = CHR ''+'' then drop 1 (dropWhile isDigit t)
          else drop 1 (dropWhile isDigit s))"

lemma not_digit_dash: "\<not> isDigit CHR ''-''" "\<not> isDigit CHR ''+''" "\<not> isDigit CHR ''T''"
  by (simp_all add: isDigit_def)

lemma digits_hd:
  assumes "\<forall>c\<in>set ds. isDigit c" "ds \<noteq> []"
  shows "\<exists>c t. ds = c # t \<and> c \<noteq> CHR ''-'' \<and> c \<noteq> CHR ''+''"
  using assms not_digit_dash by (cases ds) auto

lemma readYear_yearString: "readYear (yearString y @ CHR ''-'' # r) = y"
proof -
  let ?p4 = "padStart 4 CHR ''0'' (showNat (nat y))"
  show ?thesis
  proof (cases "0 \<le> y \<and> y \<le> 9999")
    case True
    obtain c t where ct: "?p4 = c # t" "c \<noteq> CHR ''-''" "c \<noteq> CHR ''+''"
      using digits_hd [OF digits_padStart padStart_nonempty] by blast
    have "takeWhile isDigit (?p4 @ CHR ''-'' # r) = ?p4"
      by (rule takeWhile_digits [OF digits_padStart not_digit_dash(1)])
    with True ct show ?thesis
      by (simp add: readYear_def yearString_def readNat_padStart [of 4 "nat y", unfolded ct(1)])
  next
    case False
    from False show ?thesis
      by (auto simp: readYear_def yearString_def readNat_padStart
          takeWhile_digits [OF digits_padStart not_digit_dash(1)])
  qed
qed

lemma afterYear_yearString: "afterYear (yearString y @ CHR ''-'' # r) = r"
proof -
  let ?p4 = "padStart 4 CHR ''0'' (showNat (nat y))"
  show ?thesis
  proof (cases "0 \<le> y \<and> y \<le> 9999")
    case True
    obtain c t where ct: "?p4 = c # t" "c \<noteq> CHR ''-''" "c \<noteq> CHR ''+''"
      using digits_hd [OF digits_padStart padStart_nonempty] by blast
    have "dropWhile isDigit (?p4 @ CHR ''-'' # r) = CHR ''-'' # r"
      by (rule dropWhile_digits [OF digits_padStart not_digit_dash(1)])
    with True ct show ?thesis
      by (simp add: afterYear_def yearString_def)
  next
    case False
    from False show ?thesis
      by (auto simp: afterYear_def yearString_def
          dropWhile_digits [OF digits_padStart not_digit_dash(1)])
  qed
qed

lemma readNat_pad2: "readNat (takeWhile isDigit (pad2 n @ CHR ''-'' # r)) = nat n"
  unfolding pad2_def
  by (simp add: takeWhile_digits [OF digits_padStart not_digit_dash(1)] readNat_padStart)

lemma after_pad2: "drop 1 (dropWhile isDigit (pad2 n @ CHR ''-'' # r)) = r"
  unfolding pad2_def
  by (simp add: dropWhile_digits [OF digits_padStart not_digit_dash(1)])

lemma readNat_pad2_end: "readNat (pad2 n) = nat n"
  unfolding pad2_def by (simp add: readNat_padStart)

definition isoYMD :: "int \<Rightarrow> int \<Rightarrow> int \<Rightarrow> string" where
  "isoYMD y m dt = yearString y @ ''-'' @ pad2 m @ ''-'' @ pad2 dt"

lemma isoYMD_inj:
  assumes "isoYMD y m dt = isoYMD y' m' dt'" "0 \<le> m" "0 \<le> m'" "0 \<le> dt" "0 \<le> dt'"
  shows "y = y' \<and> m = m' \<and> dt = dt'"
proof -
  have eq: "yearString y @ CHR ''-'' # (pad2 m @ CHR ''-'' # pad2 dt)
      = yearString y' @ CHR ''-'' # (pad2 m' @ CHR ''-'' # pad2 dt')"
    using assms(1) by (simp add: isoYMD_def)
  have "y = y'"
    using arg_cong [OF eq, of readYear] by (simp only: readYear_yearString)
  moreover have r: "pad2 m @ CHR ''-'' # pad2 dt = pad2 m' @ CHR ''-'' # pad2 dt'"
    using arg_cong [OF eq, of afterYear] by (simp only: afterYear_yearString)
  have "nat m = nat m'"
    using arg_cong [OF r, of "\<lambda>s. readNat (takeWhile isDigit s)"] by (simp only: readNat_pad2)
  moreover have "pad2 dt = pad2 dt'"
    using arg_cong [OF r, of "\<lambda>s. drop 1 (dropWhile isDigit s)"] by (simp only: after_pad2)
  then have "readNat (pad2 dt) = readNat (pad2 dt')"
    by simp
  then have "nat dt = nat dt'"
    by (simp only: readNat_pad2_end)
  ultimately show ?thesis
    using assms(2-) by auto
qed

lemma monthStart_le: "0 \<le> dwy \<Longrightarrow> monthStart leap (monthFromDay leap dwy) \<le> dwy"
  by (cases leap) (simp_all add: monthStart_def monthFromDay_def)

lemma isoDate_isoYMD:
  "isoDate d = isoYMD (yearFromDay d)
     (int (monthFromDay (inLeapYear (yearFromDay d)) (d - dayFromYear (yearFromDay d))) + 1)
     (d - dayFromYear (yearFromDay d)
        - monthStart (inLeapYear (yearFromDay d))
            (monthFromDay (inLeapYear (yearFromDay d)) (d - dayFromYear (yearFromDay d))) + 1)"
  by (simp add: isoDate_def isoYMD_def Let_def)

lemma isoDate_inj: "isoDate d = isoDate d' \<Longrightarrow> d = d'"
proof -
  assume eq: "isoDate d = isoDate d'"
  let ?y = "yearFromDay d" and ?y' = "yearFromDay d'"
  let ?w = "d - dayFromYear ?y" and ?w' = "d' - dayFromYear ?y'"
  have w: "0 \<le> ?w" "0 \<le> ?w'"
    using yearFromDay_bounds [of d] yearFromDay_bounds [of d'] by auto
  have ms: "monthStart (inLeapYear ?y) (monthFromDay (inLeapYear ?y) ?w) \<le> ?w"
    "monthStart (inLeapYear ?y') (monthFromDay (inLeapYear ?y') ?w') \<le> ?w'"
    using w by (auto intro: monthStart_le)
  have "?y = ?y' \<and>
    int (monthFromDay (inLeapYear ?y) ?w) + 1 = int (monthFromDay (inLeapYear ?y') ?w') + 1 \<and>
    ?w - monthStart (inLeapYear ?y) (monthFromDay (inLeapYear ?y) ?w) + 1
     = ?w' - monthStart (inLeapYear ?y') (monthFromDay (inLeapYear ?y') ?w') + 1"
    using eq ms unfolding isoDate_isoYMD by (intro isoYMD_inj) auto
  then show "d = d'"
    by auto
qed

section \<open>Properties of the grouping loops\<close>

subsection \<open>Exceptions in loops\<close>

fun err :: "error + 'a \<Rightarrow> error option" where
  "err (Inl e) = Some e"
| "err (Inr _) = None"

fun firstErr :: "error option list \<Rightarrow> error option" where
  "firstErr [] = None"
| "firstErr (Some e # _) = Some e"
| "firstErr (None # xs) = firstErr xs"

lemma err_None_iff: "err x = None \<longleftrightarrow> (\<exists>y. x = Inr y)"
  by (cases x) auto


lemma firstErr_None_iff: "firstErr es = None \<longleftrightarrow> (\<forall>e\<in>set es. e = None)"
  by (induction es rule: firstErr.induct) auto

lemma err_mapE: "err (mapE f xs) = firstErr (map (\<lambda>x. err (f x)) xs)"
  by (induction xs) (auto split: sum.splits)

lemma mapE_Inr: "mapE f xs = Inr ys \<Longrightarrow> list_all2 (\<lambda>x y. f x = Inr y) xs ys"
  by (induction xs arbitrary: ys) (auto split: sum.splits)

lemma mapE_total: "\<forall>x\<in>set xs. \<exists>y. f x = Inr y \<Longrightarrow> \<exists>ys. mapE f xs = Inr ys"
  by (induction xs) (force split: sum.splits)+

lemma err_filterE: "err (filterE p xs) = firstErr (map (\<lambda>x. err (p x)) xs)"
  by (induction xs) (auto split: sum.splits)

lemma filterE_Inr: "filterE p xs = Inr ys \<Longrightarrow> ys = filter (\<lambda>x. p x = Inr True) xs \<and> (\<forall>x\<in>set xs. \<exists>b. p x = Inr b)"
  by (induction xs arbitrary: ys) (auto split: sum.splits)

subsection \<open>Sums over association lists\<close>

lemma sum_list_update:
  fixes G :: "'k \<times> 'v \<Rightarrow> nat"
  shows "sum_list (map G (AList.update k v al)) + (case map_of al k of None \<Rightarrow> 0 | Some x \<Rightarrow> G (k, x))
     = sum_list (map G al) + G (k, v)"
  by (induction al) auto

definition dsum :: "(nat \<times> nat) list \<Rightarrow> nat \<Rightarrow> nat" where
  "dsum dm d = sum_list (map (\<lambda>p. if fst p = d then snd p else 0) dm)"

lemma dsum_countDay: "dsum (countDay d0 dm) d = dsum dm d + (if d = d0 then 1 else 0)"
  using sum_list_update [of "\<lambda>p. if fst p = d then snd p else 0" d0
      "(case map_of dm d0 of None \<Rightarrow> 0 | Some c \<Rightarrow> c) + 1" dm]
  by (auto simp: dsum_def countDay_def split: option.splits)

lemma total_countDay: "sum_list (map snd (countDay d0 dm)) = sum_list (map snd dm) + 1"
  using sum_list_update [of snd d0 "(case map_of dm d0 of None \<Rightarrow> 0 | Some c \<Rightarrow> c) + 1" dm]
  by (auto simp: countDay_def split: option.splits)

lemma distinct_countDay: "distinct (map fst dm) \<Longrightarrow> distinct (map fst (countDay d dm))"
  by (simp add: countDay_def distinct_update)

definition bump :: "string \<Rightarrow> nat \<Rightarrow> (string \<times> (nat \<times> nat) list) list \<Rightarrow> (string \<times> (nat \<times> nat) list) list" where
  "bump a d adm = AList.update a (countDay d (case map_of adm a of None \<Rightarrow> [] | Some m \<Rightarrow> m)) adm"

definition pushStamp :: "string \<Rightarrow> string \<Rightarrow> (string \<times> string list) list \<Rightarrow> (string \<times> string list) list" where
  "pushStamp a t ats = AList.update a ((case map_of ats a of None \<Rightarrow> [] | Some l \<Rightarrow> l) @ [t]) ats"

lemma groupByAddress_Cons:
  "groupByAddress (r # rs) adm ats =
     (case dayFromChallengeId (challenge_id r) of
        Inl e \<Rightarrow> Inl e
      | Inr d \<Rightarrow> groupByAddress rs (bump (ReceiptEntry.address r) d adm) (pushStamp (ReceiptEntry.address r) (ts r) ats))"
  by (auto simp: bump_def pushStamp_def Let_def update_conv' split: sum.splits option.splits)

definition tsum :: "(string \<times> (nat \<times> nat) list) list \<Rightarrow> nat \<Rightarrow> nat" where
  "tsum adm d = sum_list (map (\<lambda>p. dsum (snd p) d) adm)"

lemma tsum_bump: "tsum (bump a0 d0 adm) d = tsum adm d + (if d = d0 then 1 else 0)"
proof -
  have "dsum [] d = 0"
    by (simp add: dsum_def)
  then show ?thesis
    using sum_list_update [of "\<lambda>p. dsum (snd p) d" a0
        "countDay d0 (case map_of adm a0 of None \<Rightarrow> [] | Some m \<Rightarrow> m)" adm]
    by (auto simp: tsum_def bump_def dsum_countDay split: option.splits)
qed

definition dayOf :: "ReceiptEntry \<Rightarrow> nat" where
  "dayOf r = (case dayFromChallengeId (challenge_id r) of Inl _ \<Rightarrow> 0 | Inr d \<Rightarrow> d)"

definition decodes :: "ReceiptEntry \<Rightarrow> bool" where
  "decodes r = (\<exists>d. dayFromChallengeId (challenge_id r) = Inr d)"

lemma decodes_dayOf: "decodes r \<Longrightarrow> dayFromChallengeId (challenge_id r) = Inr (dayOf r)"
  by (auto simp: decodes_def dayOf_def)

lemma dayOf_eq_iff: "decodes r \<Longrightarrow> dayFromChallengeId (challenge_id r) = Inr d \<longleftrightarrow> dayOf r = d"
  by (auto simp: decodes_def dayOf_def)

lemma err_groupByAddress:
  "err (groupByAddress rs adm ats) = firstErr (map (\<lambda>r. err (dayFromChallengeId (challenge_id r))) rs)"
  by (induction rs arbitrary: adm ats) (auto simp: groupByAddress_Cons simp del: groupByAddress.simps(2) split: sum.splits)

lemma groupByAddress_decodes:
  "\<forall>r\<in>set rs. decodes r \<Longrightarrow>
   groupByAddress rs adm ats =
     Inr (fold (\<lambda>r. bump (ReceiptEntry.address r) (dayOf r)) rs adm,
          fold (\<lambda>r. pushStamp (ReceiptEntry.address r) (ts r)) rs ats)"
  by (induction rs arbitrary: adm ats)
     (auto simp: groupByAddress_Cons decodes_dayOf simp del: groupByAddress.simps(2))

lemma groupByAddress_Inr_decodes:
  "groupByAddress rs adm ats = Inr p \<Longrightarrow> \<forall>r\<in>set rs. decodes r"
proof -
  assume "groupByAddress rs adm ats = Inr p"
  then have "err (groupByAddress rs adm ats) = None"
    by simp
  then have "firstErr (map (\<lambda>r. err (dayFromChallengeId (challenge_id r))) rs) = None"
    by (simp add: err_groupByAddress)
  then have "\<forall>r\<in>set rs. err (dayFromChallengeId (challenge_id r)) = None"
    by (auto simp: firstErr_None_iff)
  then show ?thesis
    by (auto simp: err_None_iff decodes_def)
qed

lemma tsum_fold:
  "tsum (fold (\<lambda>r. bump (ReceiptEntry.address r) (dayOf r)) rs adm) d
     = tsum adm d + length (filter (\<lambda>r. dayOf r = d) rs)"
  by (induction rs arbitrary: adm) (auto simp: tsum_bump)

text \<open>Order of first appearance.\<close>

fun encounterOrder :: "'a list \<Rightarrow> 'a list" where
  "encounterOrder [] = []"
| "encounterOrder (x # xs) = x # removeAll x (encounterOrder xs)"

lemma keys_bump: "map fst (bump a d adm) = (if a \<in> set (map fst adm) then map fst adm else map fst adm @ [a])"
  by (simp add: bump_def update_keys)

lemma filter_removeAll_mem: "x \<in> A \<Longrightarrow> filter (\<lambda>a. a \<notin> A) (removeAll x xs) = filter (\<lambda>a. a \<notin> A) xs"
  by (induction xs) auto

lemma filter_removeAll_notin: "filter (\<lambda>a. a \<noteq> x \<and> a \<notin> A) xs = filter (\<lambda>a. a \<notin> A) (removeAll x xs)"
  by (induction xs) auto

lemma keys_fold_bump:
  "map fst (fold (\<lambda>r. bump (ReceiptEntry.address r) (dayOf r)) rs adm)
     = map fst adm @ filter (\<lambda>a. a \<notin> set (map fst adm)) (encounterOrder (map ReceiptEntry.address rs))"
proof (induction rs arbitrary: adm)
  case Nil
  then show ?case by simp
next
  case (Cons r rs)
  let ?a = "ReceiptEntry.address r"
  let ?eo = "encounterOrder (map ReceiptEntry.address rs)"
  show ?case
  proof (cases "?a \<in> set (map fst adm)")
    case True
    then have "filter (\<lambda>a. a \<notin> set (map fst adm)) (removeAll ?a ?eo) = filter (\<lambda>a. a \<notin> set (map fst adm)) ?eo"
      by (rule filter_removeAll_mem)
    with True show ?thesis
      by (simp add: Cons.IH keys_bump)
  next
    case False
    have "filter (\<lambda>a. a \<noteq> ?a \<and> a \<notin> set (map fst adm)) ?eo = filter (\<lambda>a. a \<notin> set (map fst adm)) (removeAll ?a ?eo)"
      by (rule filter_removeAll_notin)
    with False show ?thesis
      by (simp add: Cons.IH keys_bump)
  qed
qed

lemma distinct_encounterOrder: "distinct (encounterOrder xs)"
  by (induction xs) (auto simp: distinct_removeAll)

lemma set_encounterOrder: "set (encounterOrder xs) = set xs"
  by (induction xs) auto

lemma set_alist_update: "set (AList.update k v al) \<subseteq> insert (k, v) (set al)"
  by (induction al) auto

lemma inner_distinct_bump:
  "\<forall>p\<in>set adm. distinct (map fst (snd p)) \<Longrightarrow> \<forall>p\<in>set (bump a d adm). distinct (map fst (snd p))"
proof -
  assume inv: "\<forall>p\<in>set adm. distinct (map fst (snd p))"
  have "distinct (map fst (case map_of adm a of None \<Rightarrow> [] | Some m \<Rightarrow> m))"
    using inv by (auto split: option.splits dest!: map_of_SomeD)
  then have "distinct (map fst (countDay d (case map_of adm a of None \<Rightarrow> [] | Some m \<Rightarrow> m)))"
    by (rule distinct_countDay)
  then show ?thesis
    using inv set_alist_update [of a _ adm] unfolding bump_def by fastforce
qed

lemma inner_distinct_fold:
  "\<forall>p\<in>set adm. distinct (map fst (snd p)) \<Longrightarrow>
   \<forall>p\<in>set (fold (\<lambda>r. bump (ReceiptEntry.address r) (dayOf r)) rs adm). distinct (map fst (snd p))"
  by (induction rs arbitrary: adm) (auto dest: inner_distinct_bump simp del: split_paired_All)

definition atot :: "(string \<times> (nat \<times> nat) list) list \<Rightarrow> string \<Rightarrow> nat" where
  "atot adm a = (case map_of adm a of None \<Rightarrow> 0 | Some dm \<Rightarrow> sum_list (map snd dm))"

lemma atot_bump: "atot (bump a0 d0 adm) a = atot adm a + (if a = a0 then 1 else 0)"
  by (auto simp: atot_def bump_def update_conv' total_countDay split: option.splits)

lemma atot_fold:
  "atot (fold (\<lambda>r. bump (ReceiptEntry.address r) (dayOf r)) rs adm) a
     = atot adm a + length (filter (\<lambda>r. ReceiptEntry.address r = a) rs)"
  by (induction rs arbitrary: adm) (auto simp: atot_bump)

section \<open>The date of a challenge identifier\<close>

text \<open>The UTC calendar date of a time value, and the time value of day \<open>n\<close>.\<close>

definition utcDate :: "int \<Rightarrow> string" where
  "utcDate t = isoDate (t div msPerDay)"

definition anchoredTime :: "nat \<Rightarrow> int" where
  "anchoredTime n = tgeStart + (int n - 1) * 86400000"

lemma isoDate_no_T: "CHR ''T'' \<notin> set (isoDate d)"
proof -
  have "\<forall>c\<in>set (pad2 n). isDigit c" for n
    unfolding pad2_def by (rule digits_padStart)
  moreover have "\<forall>c\<in>set (yearString y). isDigit c \<or> c = CHR ''-'' \<or> c = CHR ''+''" for y
    using digits_padStart by (auto simp: yearString_def)
  ultimately have "\<forall>c\<in>set (isoDate d). isDigit c \<or> c = CHR ''-'' \<or> c = CHR ''+''"
    by (auto simp: isoDate_def Let_def)
  then show ?thesis
    using not_digit_dash(3) by auto
qed

lemma splitFirst_toISOString:
  "toISOString (Some t) = Inr s \<Longrightarrow> splitFirst CHR ''T'' s = utcDate t"
  using isoDate_no_T [of "t div msPerDay"]
  by (auto simp: toISOString_def splitFirst_def utcDate_def takeWhile_tail)

lemma dateFromChallengeId_day:
  assumes "dayFromChallengeId s = Inr n"
  shows "dateFromChallengeId s =
     (if n \<le> 99979610 then Inr (utcDate (anchoredTime n)) else Inl RangeError)"
proof -
  have t: "tgeStart + (int n - 1) * 24 * 60 * 60 * 1000 = anchoredTime n"
    by (simp add: anchoredTime_def)
  have unfold: "dateFromChallengeId s =
      (case toISOString (timeClip (anchoredTime n)) of
         Inl e \<Rightarrow> Inl e
       | Inr str \<Rightarrow> Inr (splitFirst CHR ''T'' str))"
    unfolding dateFromChallengeId_def assms sum.case t ..
  show ?thesis
  proof (cases "n \<le> 99979610")
    case True
    then have "timeClip (anchoredTime n) = Some (anchoredTime n)"
      by (simp add: timeClip_def anchoredTime_def tgeStart_def maxTime_def)
    moreover obtain str where str: "toISOString (Some (anchoredTime n)) = Inr str"
      by (simp add: toISOString_def)
    ultimately show ?thesis
      using True splitFirst_toISOString [OF str] by (simp add: unfold)
  next
    case False
    then have "timeClip (anchoredTime n) = None"
      by (simp add: timeClip_def anchoredTime_def tgeStart_def maxTime_def)
    with False show ?thesis
      by (simp add: unfold toISOString_def)
  qed
qed

lemma anchoredTime_div: "anchoredTime n div msPerDay = 20390 + int n"
proof -
  have "anchoredTime n = (20390 + int n) * 86400000"
    by (simp add: anchoredTime_def tgeStart_def algebra_simps)
  then show ?thesis
    by (simp only: msPerDay_def) simp
qed

lemma utcDate_day: "utcDate (anchoredTime n) = isoDate (20390 + int n)"
  by (simp add: utcDate_def anchoredTime_div)

lemma dateFromChallengeId_inj:
  assumes "dateFromChallengeId s = Inr x" "dateFromChallengeId s' = Inr x"
  shows "dayFromChallengeId s = dayFromChallengeId s'"
proof -
  obtain n where n: "dayFromChallengeId s = Inr n"
    using assms(1) by (auto simp: dateFromChallengeId_def split: sum.splits)
  obtain n' where n': "dayFromChallengeId s' = Inr n'"
    using assms(2) by (auto simp: dateFromChallengeId_def split: sum.splits)
  have "x = isoDate (20390 + int n)"
    using assms(1) dateFromChallengeId_day [OF n] by (auto simp: utcDate_day split: if_splits)
  moreover have "x = isoDate (20390 + int n')"
    using assms(2) dateFromChallengeId_day [OF n'] by (auto simp: utcDate_day split: if_splits)
  ultimately have "20390 + int n = 20390 + int n'"
    by (auto dest: isoDate_inj)
  with n n' show ?thesis
    by simp
qed

lemma dayFromChallengeId_D08: "dayFromChallengeId ''**D08C00'' = Inr 8"
  by (simp add: dayFromChallengeId_def isDigit_def readNat_def digitVal_def)

lemmas date_eval =
  tgeStart_def msPerDay_def dayFromYear_def inLeapYear_def monthStart_def
  yearString_def pad2_def padStart_def digitChar_def yearFromDay_def

lemma utcDate_anchor: "utcDate tgeStart = ''2025-10-30''"
  unfolding utcDate_def isoDate_def monthFromDay_def Let_def
  by (simp add: date_eval)

lemma utcDate_D08: "utcDate (anchoredTime 8) = ''2025-11-06''"
  unfolding utcDate_day isoDate_def monthFromDay_def Let_def
  by (simp add: date_eval)

lemma dateFromChallengeId_D08: "dateFromChallengeId ''**D08C00'' = Inr ''2025-11-06''"
  using dateFromChallengeId_day [OF dayFromChallengeId_D08] by (simp add: utcDate_D08)

text \<open>
  Claim C7. \<open>dateFromChallengeId\<close> maps day \<open>N\<close> to the UTC calendar date of the time value
  \<open>(N - 1) \<times> 86,400,000\<close> ms after the anchor 2025-10-30 (\<open>anchoredTime N\<close>), for every day
  whose time value a \<open>Date\<close> can hold (\<open>N \<le> 99979610\<close>); two identifiers with the same date
  have the same day number; and day 8 is mapped to 2025-11-06.
\<close>

theorem dateFromChallengeId_calendar:
  "utcDate tgeStart = ''2025-10-30'' \<and> anchoredTime 1 = tgeStart \<and>
   (anchoredTime (Suc n) = anchoredTime n + 86400000) \<and>
   (dayFromChallengeId s = Inr n \<and> n \<le> 99979610 \<longrightarrow>
      dateFromChallengeId s = Inr (utcDate (anchoredTime n))) \<and>
   (dateFromChallengeId s = Inr x \<and> dateFromChallengeId s' = Inr x \<longrightarrow>
      dayFromChallengeId s = dayFromChallengeId s') \<and>
   dateFromChallengeId ''**D08C00'' = Inr ''2025-11-06''"
proof (intro conjI impI)
  show "utcDate tgeStart = ''2025-10-30''"
    by (rule utcDate_anchor)
  show "anchoredTime 1 = tgeStart"
    by (simp add: anchoredTime_def)
  show "anchoredTime (Suc n) = anchoredTime n + 86400000"
    by (simp add: anchoredTime_def)
  show "dateFromChallengeId s = Inr (utcDate (anchoredTime n))"
    if "dayFromChallengeId s = Inr n \<and> n \<le> 99979610"
    using that dateFromChallengeId_day [of s n] by simp
  show "dayFromChallengeId s = dayFromChallengeId s'"
    if "dateFromChallengeId s = Inr x \<and> dateFromChallengeId s' = Inr x"
    using that dateFromChallengeId_inj [of s x s'] by simp
  show "dateFromChallengeId ''**D08C00'' = Inr ''2025-11-06''"
    by (rule dateFromChallengeId_D08)
qed

theorem dateFromChallengeId_calendar_witness:
  "dayFromChallengeId ''**D08C00'' = Inr 8 \<and> (8::nat) \<le> 99979610 \<and>
   dateFromChallengeId ''**D08C00'' = Inr (utcDate (anchoredTime 8)) \<and>
   dateFromChallengeId ''**D08C00'' = Inr ''2025-11-06'' \<and>
   dateFromChallengeId ''x**D008Cy'' = Inr ''2025-11-06'' \<and>
   dayFromChallengeId ''**D08C00'' = dayFromChallengeId ''x**D008Cy''"
proof -
  have d: "dayFromChallengeId ''x**D008Cy'' = Inr 8"
    by (simp add: dayFromChallengeId_def isDigit_def readNat_def digitVal_def)
  have x: "dateFromChallengeId ''x**D008Cy'' = Inr ''2025-11-06''"
    using dateFromChallengeId_day [OF d] by (simp add: utcDate_D08)
  show ?thesis
    using dateFromChallengeId_calendar
        [where s = "''**D08C00''" and n = 8 and x = "''2025-11-06''" and s' = "''x**D008Cy''"]
      dayFromChallengeId_D08 x d
    by (simp add: utcDate_D08)
qed

section \<open>Decoding the day number\<close>

text \<open>
  The identifier contains a match of the pattern: the text \<open>**D\<close>, one or more decimal
  digits, and \<open>C\<close>.
\<close>

definition matchesPattern :: "string \<Rightarrow> bool" where
  "matchesPattern s =
     (\<exists>pre ds post. s = pre @ ''**D'' @ ds @ ''C'' @ post \<and> ds \<noteq> [] \<and> (\<forall>c\<in>set ds. isDigit c))"

lemma matchHere_Some:
  "matchHere s = Some ds \<longleftrightarrow>
     (\<exists>post. s = ''**D'' @ ds @ ''C'' @ post \<and> ds \<noteq> [] \<and> (\<forall>c\<in>set ds. isDigit c))"
proof
  assume m: "matchHere s = Some ds"
  then obtain rest where s: "s = CHR ''*'' # CHR ''*'' # CHR ''D'' # rest"
    and ds: "ds = takeWhile isDigit rest" "ds \<noteq> []"
    and c: "take 1 (dropWhile isDigit rest) = ''C''"
    by (cases s rule: matchHere.cases) (auto split: if_splits)
  from c obtain post where "dropWhile isDigit rest = CHR ''C'' # post"
    by (cases "dropWhile isDigit rest") auto
  then have "rest = ds @ CHR ''C'' # post"
    using takeWhile_dropWhile_id [of isDigit rest] ds(1) by simp
  moreover have "\<forall>c\<in>set ds. isDigit c"
    unfolding ds(1) by (auto dest: set_takeWhileD)
  ultimately show "\<exists>post. s = ''**D'' @ ds @ ''C'' @ post \<and> ds \<noteq> [] \<and> (\<forall>c\<in>set ds. isDigit c)"
    using s ds(2) by auto
next
  assume "\<exists>post. s = ''**D'' @ ds @ ''C'' @ post \<and> ds \<noteq> [] \<and> (\<forall>c\<in>set ds. isDigit c)"
  then obtain post where s: "s = ''**D'' @ ds @ ''C'' @ post" and ds: "ds \<noteq> []" "\<forall>c\<in>set ds. isDigit c"
    by blast
  have C: "\<not> isDigit CHR ''C''"
    by (simp add: isDigit_def)
  show "matchHere s = Some ds"
    using ds by (simp add: s takeWhile_digits [OF ds(2) C] dropWhile_digits [OF ds(2) C])
qed

lemma regexMatch_Some:
  "regexMatch s = Some ds \<Longrightarrow>
     \<exists>pre post. s = pre @ ''**D'' @ ds @ ''C'' @ post \<and> ds \<noteq> [] \<and> (\<forall>c\<in>set ds. isDigit c)"
proof (induction s)
  case Nil
  then show ?case by simp
next
  case (Cons c cs)
  show ?case
  proof (cases "matchHere (c # cs)")
    case None
    with Cons obtain pre post where
      "cs = pre @ ''**D'' @ ds @ ''C'' @ post \<and> ds \<noteq> [] \<and> (\<forall>c\<in>set ds. isDigit c)"
      by auto
    then have "c # cs = (c # pre) @ ''**D'' @ ds @ ''C'' @ post \<and> ds \<noteq> [] \<and> (\<forall>c\<in>set ds. isDigit c)"
      by simp
    then show ?thesis by blast
  next
    case (Some a)
    with Cons.prems have "matchHere (c # cs) = Some ds"
      by simp
    then obtain post where "c # cs = [] @ ''**D'' @ ds @ ''C'' @ post \<and> ds \<noteq> [] \<and> (\<forall>c\<in>set ds. isDigit c)"
      unfolding matchHere_Some by auto
    then show ?thesis by blast
  qed
qed

lemma regexMatch_append:
  "matchHere s = Some ds \<Longrightarrow> \<exists>ds'. regexMatch (pre @ s) = Some ds'"
proof (induction pre)
  case Nil
  then show ?case by (cases s) auto
next
  case (Cons c pre)
  then show ?case by (auto split: option.splits)
qed

lemma regexMatch_None_iff: "regexMatch s = None \<longleftrightarrow> \<not> matchesPattern s"
proof
  assume n: "regexMatch s = None"
  show "\<not> matchesPattern s"
  proof
    assume "matchesPattern s"
    then obtain pre ds post where s: "s = pre @ ''**D'' @ ds @ ''C'' @ post" "ds \<noteq> []" "\<forall>c\<in>set ds. isDigit c"
      unfolding matchesPattern_def by blast
    then have "matchHere (''**D'' @ ds @ ''C'' @ post) = Some ds"
      unfolding matchHere_Some by blast
    from regexMatch_append [OF this, of pre] n s(1) show False
      by simp
  qed
next
  assume "\<not> matchesPattern s"
  then show "regexMatch s = None"
    using regexMatch_Some [of s] unfolding matchesPattern_def by (cases "regexMatch s") auto
qed


lemma dayFromChallengeId_Inl_iff:
  "(\<exists>e. dayFromChallengeId s = Inl e) \<longleftrightarrow> \<not> matchesPattern s"
  unfolding regexMatch_None_iff [symmetric] dayFromChallengeId_def
  by (auto split: option.splits)




text \<open>A receipt with the three fields the statistics read, for the examples.\<close>

definition receipt :: "string \<Rightarrow> string \<Rightarrow> string \<Rightarrow> ReceiptEntry" where
  "receipt t a c = \<lparr>ts = t, address = a, challenge_id = c, nonce = ''0'', hash = None\<rparr>"

lemma receipt_sel [simp]:
  "ts (receipt t a c) = t" "ReceiptEntry.address (receipt t a c) = a"
  "challenge_id (receipt t a c) = c"
  by (simp_all add: receipt_def)

lemmas day_eval = dayFromChallengeId_def isDigit_def readNat_def digitVal_def


section \<open>The trailing-window rate\<close>

text \<open>
  The host of the examples: 2025-11-05T11:22:00Z on a machine running in UTC, with
  \<open>Date.parse\<close> given on the timestamps that occur in the examples.
\<close>

definition exampleHost :: host where
  "exampleHost =
     \<lparr>dateParse = map_of
        [(''2025-11-05T03:30:00Z'', 1762313400000),
         (''2025-11-05T08:20:00Z'', 1762330800000),
         (''2025-11-05T10:15:00Z'', 1762337700000),
         (''2025-11-05T10:45:00Z'', 1762339500000)],
      now = 1762341720000, tzOffset = 0\<rparr>"

lemma fl_one: "fl 1 = Num 1"
  unfolding fl_def floorLog2_def roundHalfEven_def Let_def
  by (simp add: pow2_def)

text \<open>The receipt's timestamp is a valid date at or after \<open>now - hours \<times> 3,600,000\<close> ms.\<close>

definition withinTrailing :: "host \<Rightarrow> int \<Rightarrow> ReceiptEntry \<Rightarrow> bool" where
  "withinTrailing h hours r =
     (\<exists>t. newDate h (ts r) = Some t \<and> now h - hours * 3600000 \<le> t)"

lemma isRecent_withinTrailing:
  "isRecent h (now h - hours * 60 * 60 * 1000) = withinTrailing h hours"
  by (rule ext) (auto simp: isRecent_def withinTrailing_def split: option.splits)

lemma getSolutionsPerHour_nonempty:
  "rs \<noteq> [] \<Longrightarrow>
   getSolutionsPerHour h rs hours =
     jsdiv (Num (of_nat (length (filter (withinTrailing h hours) rs)))) (Num (of_int hours))"
  unfolding getSolutionsPerHour_def Let_def isRecent_withinTrailing by simp

text \<open>
  Claim C9. \<open>getSolutionsPerHour\<close> returns 0 for the empty list whatever \<open>hours\<close> is, and
  otherwise the number of receipts whose timestamp is a valid date at or after
  \<open>now - hours \<times> 3,600,000\<close> ms, divided by \<open>hours\<close> (for \<open>hours \<noteq> 0\<close> the double nearest to
  the quotient).
\<close>

theorem getSolutionsPerHour_rate:
  "getSolutionsPerHour h [] hours = Num 0 \<and>
   (rs \<noteq> [] \<longrightarrow>
      getSolutionsPerHour h rs hours =
        jsdiv (Num (of_nat (length (filter (withinTrailing h hours) rs)))) (Num (of_int hours))) \<and>
   (rs \<noteq> [] \<and> hours \<noteq> 0 \<longrightarrow>
      getSolutionsPerHour h rs hours =
        fl (of_nat (length (filter (withinTrailing h hours) rs)) / of_int hours))"
proof (intro conjI impI)
  show "getSolutionsPerHour h [] hours = Num 0"
    by (simp add: getSolutionsPerHour_def)
  show "getSolutionsPerHour h rs hours =
      jsdiv (Num (of_nat (length (filter (withinTrailing h hours) rs)))) (Num (of_int hours))"
    if "rs \<noteq> []"
    using that by (rule getSolutionsPerHour_nonempty)
  show "getSolutionsPerHour h rs hours =
      fl (of_nat (length (filter (withinTrailing h hours) rs)) / of_int hours)"
    if "rs \<noteq> [] \<and> hours \<noteq> 0"
    using that by (simp add: getSolutionsPerHour_nonempty)
qed

theorem getSolutionsPerHour_rate_witness:
  "[receipt ''2025-11-05T10:15:00Z'' ''A'' ''**D07C01'',
    receipt ''2025-11-05T10:45:00Z'' ''B'' ''**D07C01''] \<noteq> [] \<and> (1::int) \<noteq> 0 \<and>
   length (filter (withinTrailing exampleHost 1)
     [receipt ''2025-11-05T10:15:00Z'' ''A'' ''**D07C01'',
      receipt ''2025-11-05T10:45:00Z'' ''B'' ''**D07C01'']) = 1 \<and>
   getSolutionsPerHour exampleHost
     [receipt ''2025-11-05T10:15:00Z'' ''A'' ''**D07C01'',
      receipt ''2025-11-05T10:45:00Z'' ''B'' ''**D07C01''] 1 = Num 1"
proof -
  let ?rs = "[receipt ''2025-11-05T10:15:00Z'' ''A'' ''**D07C01'',
              receipt ''2025-11-05T10:45:00Z'' ''B'' ''**D07C01'']"
  have ne: "?rs \<noteq> [] \<and> (1::int) \<noteq> 0"
    by simp
  have n: "length (filter (withinTrailing exampleHost 1) ?rs) = 1"
    by (simp add: withinTrailing_def newDate_def exampleHost_def timeClip_def maxTime_def)
  from mp [OF getSolutionsPerHour_rate [where h = exampleHost and rs = ?rs and hours = 1,
      THEN conjunct2, THEN conjunct2] ne]
  have "getSolutionsPerHour exampleHost ?rs 1 = Num 1"
    unfolding n by (simp add: fl_one)
  with ne n show ?thesis
    by (intro conjI) simp_all
qed

section \<open>The previous clock hour\<close>

text \<open>
  The start of the \<open>k\<close>-th clock hour before the current one, in local time: \<open>k = 0\<close> is the
  hour that contains \<open>now\<close>, \<open>k = 1\<close> the previous hour.
\<close>

definition windowStart :: "host \<Rightarrow> int \<Rightarrow> int" where
  "windowStart h k = ((now h + tzOffset h) div 3600000 - k) * 3600000 - tzOffset h"



lemma hour_of_day:
  fixes x :: int
  shows "x div 86400000 * 86400000 + (x div 3600000 mod 24 - k) * 3600000
     = (x div 3600000 - k) * 3600000"
proof -
  define a where "a = x div 3600000 div 24"
  define b where "b = x div 3600000 mod 24"
  have d: "x div 86400000 = a"
    unfolding a_def using zdiv_zmult2_eq [of 24 x 3600000] by simp
  have e: "x div 3600000 = a * 24 + b"
    unfolding a_def b_def by simp
  have "a * 86400000 + (b - k) * 3600000 = (a * 24 + b - k) * 3600000"
    by (simp add: algebra_simps)
  then show ?thesis
    unfolding d b_def [symmetric] unfolding e .
qed

lemma setHours_windowStart:
  "setHours h (now h) (getHours h (now h) - k) = timeClip (windowStart h k)"
  unfolding setHours_def getHours_def msPerDay_def msPerHour_def windowStart_def
  by (simp only: hour_of_day)






lemma replicate_numeral [simp]: "replicate (numeral k) x = x # replicate (pred_numeral k) x"
  by (simp add: numeral_eq_Suc)

lemmas iso_eval =
  toISOString_def isoTime_def msPerDay_def msPerHour_def dayFromYear_def inLeapYear_def
  monthStart_def yearString_def pad2_def padStart_def digitChar_def yearFromDay_def

lemma windowStart_example: "windowStart exampleHost k = 1762340400000 - k * 3600000"
  by (simp add: windowStart_def exampleHost_def algebra_simps)

lemma toISOString_example: "toISOString (Some 1762336800000) = Inr ''2025-11-05T10:00:00.000Z''"
  unfolding toISOString_def isoDate_def monthFromDay_def Let_def
  by (simp add: iso_eval)


section \<open>The last N clock hours\<close>




lemma jsdiv_zero_million: "jsdiv (Num 0) million = Num 0"
  by (simp add: million_def fl_def)




lemma hourEntry_start:
  "setHours h (now h) (getHours h (now h) - j - 1) = timeClip (windowStart h (j + 1))"
  using setHours_windowStart [of h "j + 1"] by (simp add: algebra_simps)


lemma newDate_example:
  "newDate exampleHost ''2025-11-05T03:30:00Z'' = Some 1762313400000"
  "newDate exampleHost ''2025-11-05T08:20:00Z'' = Some 1762330800000"
  "newDate exampleHost ''2025-11-05T10:15:00Z'' = Some 1762337700000"
  "newDate exampleHost ''2025-11-05T10:45:00Z'' = Some 1762339500000"
  by (simp_all add: newDate_def exampleHost_def timeClip_def maxTime_def)





section \<open>Today's statistics\<close>

lemma isToday_True:
  "isToday today r = Inr True \<longleftrightarrow> dateFromChallengeId (challenge_id r) = Inr today"
  by (auto simp: isToday_def split: sum.splits)

lemma isToday_err: "err (isToday today r) = err (dateFromChallengeId (challenge_id r))"
  by (auto simp: isToday_def split: sum.splits)

lemma dateFromChallengeId_Inr_day:
  "dateFromChallengeId s = Inr d \<Longrightarrow> \<exists>n. dayFromChallengeId s = Inr n"
  by (auto simp: dateFromChallengeId_def split: sum.splits)

lemma today_valid:
  "\<bar>now h\<bar> \<le> maxTime \<Longrightarrow>
   \<exists>str. toISOString (timeClip (now h)) = Inr str \<and> splitFirst CHR ''T'' str = utcDate (now h)"
  using splitFirst_toISOString [of "now h"] by (auto simp: timeClip_def toISOString_def)

lemma getTodayStats_cases:
  assumes "\<bar>now h\<bar> \<le> maxTime"
  shows "getTodayStats h rs rates =
     (case filterE (isToday (utcDate (now h))) rs of
        Inl x \<Rightarrow> Inl x
      | Inr todayReceipts \<Rightarrow>
     (case todayReceipts of
        [] \<Rightarrow> Inr None
      | r0 # _ \<Rightarrow>
     (case dayFromChallengeId (challenge_id r0) of
        Inl x \<Rightarrow> Inl x
      | Inr d \<Rightarrow>
          Inr (Some \<lparr>day = d, date = utcDate (now h),
                      receipts = length todayReceipts,
                      addresses = Some (length (remdups (map ReceiptEntry.address todayReceipts))),
                      star = jsmul (Num (of_nat (length todayReceipts))) (starPerReceipt rates d),
                      night = jsdiv (jsmul (Num (of_nat (length todayReceipts)))
                                (starPerReceipt rates d)) million\<rparr>))))"
proof -
  obtain str where A: "toISOString (timeClip (now h)) = Inr str"
    and B: "splitFirst CHR ''T'' str = utcDate (now h)"
    using today_valid [OF assms] by blast
  show ?thesis
    unfolding getTodayStats_def Let_def A sum.case B ..
qed

lemma getTodayStats_None_iff:
  assumes "\<bar>now h\<bar> \<le> maxTime"
  shows "getTodayStats h rs rates = Inr None \<longleftrightarrow>
     (\<forall>r\<in>set rs. \<exists>d. dateFromChallengeId (challenge_id r) = Inr d \<and> d \<noteq> utcDate (now h))"
proof (cases "filterE (isToday (utcDate (now h))) rs")
  case (Inl e)
  then have "firstErr (map (\<lambda>r. err (dateFromChallengeId (challenge_id r))) rs) = Some e"
    using err_filterE [of "isToday (utcDate (now h))" rs] by (simp add: isToday_err)
  then have "\<exists>r\<in>set rs. err (dateFromChallengeId (challenge_id r)) \<noteq> None"
    using firstErr_None_iff [of "map (\<lambda>r. err (dateFromChallengeId (challenge_id r))) rs"]
    by auto
  then have "\<exists>r\<in>set rs. \<forall>d. dateFromChallengeId (challenge_id r) \<noteq> Inr d"
    by (auto simp: err_None_iff)
  with Inl show ?thesis
    by (auto simp: getTodayStats_cases [OF assms])
next
  case (Inr ys)
  from filterE_Inr [OF this]
  have ys: "ys = filter (\<lambda>r. dateFromChallengeId (challenge_id r) = Inr (utcDate (now h))) rs"
    and all: "\<forall>r\<in>set rs. \<exists>b. isToday (utcDate (now h)) r = Inr b"
    by (simp_all add: isToday_True)
  have dated: "\<forall>r\<in>set rs. \<exists>d. dateFromChallengeId (challenge_id r) = Inr d"
  proof
    fix r
    assume "r \<in> set rs"
    with all obtain b where "isToday (utcDate (now h)) r = Inr b"
      by blast
    then show "\<exists>d. dateFromChallengeId (challenge_id r) = Inr d"
      by (cases "dateFromChallengeId (challenge_id r)") (simp_all add: isToday_def)
  qed
  show ?thesis
  proof (cases ys)
    case Nil
    then have "\<forall>r\<in>set rs. dateFromChallengeId (challenge_id r) \<noteq> Inr (utcDate (now h))"
      using ys by (simp add: filter_empty_conv)
    with dated Inr Nil show ?thesis
      by (fastforce simp: getTodayStats_cases [OF assms])
  next
    case (Cons r0 rest)
    then have "r0 \<in> set ys"
      by simp
    then have r0: "r0 \<in> set rs" "dateFromChallengeId (challenge_id r0) = Inr (utcDate (now h))"
      unfolding ys by simp_all
    then obtain n where "dayFromChallengeId (challenge_id r0) = Inr n"
      using dateFromChallengeId_Inr_day by blast
    with Inr Cons have "getTodayStats h rs rates \<noteq> Inr None"
      by (simp add: getTodayStats_cases [OF assms])
    moreover have "\<not> (\<forall>r\<in>set rs. \<exists>d. dateFromChallengeId (challenge_id r) = Inr d \<and>
        d \<noteq> utcDate (now h))"
    proof
      assume "\<forall>r\<in>set rs. \<exists>d. dateFromChallengeId (challenge_id r) = Inr d \<and>
        d \<noteq> utcDate (now h)"
      with r0(1) obtain d where "dateFromChallengeId (challenge_id r0) = Inr d"
        "d \<noteq> utcDate (now h)"
        by blast
      with r0(2) show False
        by simp
    qed
    ultimately show ?thesis
      by simp
  qed
qed

lemma getTodayStats_Some:
  assumes "\<bar>now h\<bar> \<le> maxTime" "getTodayStats h rs rates = Inr (Some s)"
  shows "date s = utcDate (now h) \<and>
     DayStats.receipts s =
       length (filter (\<lambda>r. dateFromChallengeId (challenge_id r) = Inr (utcDate (now h))) rs) \<and>
     (\<exists>pre r0 post. rs = pre @ r0 # post \<and>
        (\<forall>r\<in>set pre. dateFromChallengeId (challenge_id r) \<noteq> Inr (utcDate (now h))) \<and>
        dateFromChallengeId (challenge_id r0) = Inr (utcDate (now h)) \<and>
        dayFromChallengeId (challenge_id r0) = Inr (day s)) \<and>
     (\<forall>r\<in>set rs. dateFromChallengeId (challenge_id r) = Inr (utcDate (now h)) \<longrightarrow>
        dayFromChallengeId (challenge_id r) = Inr (day s))"
proof -
  let ?P = "\<lambda>r. dateFromChallengeId (challenge_id r) = Inr (utcDate (now h))"
  from assms(2) obtain ys where Inr: "filterE (isToday (utcDate (now h))) rs = Inr ys"
    by (auto simp: getTodayStats_cases [OF assms(1)] split: sum.splits)
  from filterE_Inr [OF this] have ys: "ys = filter ?P rs"
    by (simp add: isToday_True)
  from assms(2) Inr obtain r0 rest where Cons: "ys = r0 # rest"
    by (auto simp: getTodayStats_cases [OF assms(1)] split: list.splits)
  from assms(2) Inr Cons have s: "dayFromChallengeId (challenge_id r0) = Inr (day s)"
    "date s = utcDate (now h)" "DayStats.receipts s = length ys"
    by (auto simp: getTodayStats_cases [OF assms(1)] split: sum.splits)
  from Cons ys have "filter ?P rs = r0 # rest"
    by simp
  then obtain pre post where split: "rs = pre @ r0 # post" "\<forall>r\<in>set pre. \<not> ?P r" "?P r0"
    unfolding filter_eq_Cons_iff by blast
  have same: "dayFromChallengeId (challenge_id r) = Inr (day s)" if "r \<in> set rs" "?P r" for r
    using dateFromChallengeId_inj [OF that(2) split(3)] s(1) by simp
  from s ys split same show ?thesis
    by blast
qed

text \<open>
  Claim C10. With the clock at a valid date, \<open>getTodayStats\<close> returns \<open>null\<close> exactly when
  every receipt's identifier decodes to a date other than the current UTC date, also for a
  non-empty list. When it returns a record, the record's day is the day number of the first
  receipt dated today, and every receipt dated today has that same day number.
\<close>

theorem getTodayStats_today:
  "\<bar>now h\<bar> \<le> maxTime \<longrightarrow>
     (getTodayStats h rs rates = Inr None \<longleftrightarrow>
        (\<forall>r\<in>set rs. \<exists>d. dateFromChallengeId (challenge_id r) = Inr d \<and> d \<noteq> utcDate (now h))) \<and>
     (getTodayStats h rs rates = Inr (Some s) \<longrightarrow>
        date s = utcDate (now h) \<and>
        DayStats.receipts s =
          length (filter (\<lambda>r. dateFromChallengeId (challenge_id r) = Inr (utcDate (now h))) rs) \<and>
        (\<exists>pre r0 post. rs = pre @ r0 # post \<and>
           (\<forall>r\<in>set pre. dateFromChallengeId (challenge_id r) \<noteq> Inr (utcDate (now h))) \<and>
           dateFromChallengeId (challenge_id r0) = Inr (utcDate (now h)) \<and>
           dayFromChallengeId (challenge_id r0) = Inr (day s)) \<and>
        (\<forall>r\<in>set rs. dateFromChallengeId (challenge_id r) = Inr (utcDate (now h)) \<longrightarrow>
           dayFromChallengeId (challenge_id r) = Inr (day s)))"
  using getTodayStats_None_iff [of h rs rates] getTodayStats_Some [of h rs rates s]
  by blast

lemma dateFromChallengeId_eval:
  "dayFromChallengeId s = Inr n \<Longrightarrow> n \<le> 99979610 \<Longrightarrow>
   dateFromChallengeId s = Inr (isoDate (20390 + int n))"
  by (simp add: dateFromChallengeId_day utcDate_day)

lemma isoDate_20396: "isoDate 20396 = ''2025-11-04''"
  unfolding isoDate_def monthFromDay_def Let_def by (simp add: date_eval)

lemma isoDate_20397: "isoDate 20397 = ''2025-11-05''"
  unfolding isoDate_def monthFromDay_def Let_def by (simp add: date_eval)

lemma utcDate_example: "utcDate (now exampleHost) = ''2025-11-05''"
  by (simp add: utcDate_def exampleHost_def msPerDay_def isoDate_20397)

lemma date_examples:
  "dateFromChallengeId ''**D06C01'' = Inr ''2025-11-04''"
  "dateFromChallengeId ''**D07C01'' = Inr ''2025-11-05''"
  "dateFromChallengeId ''**D07C02'' = Inr ''2025-11-05''"
proof -
  have "dayFromChallengeId ''**D06C01'' = Inr 6" "dayFromChallengeId ''**D07C01'' = Inr 7"
    "dayFromChallengeId ''**D07C02'' = Inr 7"
    by (simp_all add: day_eval)
  then show "dateFromChallengeId ''**D06C01'' = Inr ''2025-11-04''"
    "dateFromChallengeId ''**D07C01'' = Inr ''2025-11-05''"
    "dateFromChallengeId ''**D07C02'' = Inr ''2025-11-05''"
    by (simp_all add: dateFromChallengeId_eval isoDate_20396 isoDate_20397)
qed

theorem getTodayStats_today_witness:
  "\<bar>now exampleHost\<bar> \<le> maxTime \<and>
   [receipt ''2025-11-05T08:20:00Z'' ''A'' ''**D06C01''] \<noteq> [] \<and>
   getTodayStats exampleHost [receipt ''2025-11-05T08:20:00Z'' ''A'' ''**D06C01''] [] = Inr None \<and>
   getTodayStats exampleHost
     [receipt ''2025-11-05T08:20:00Z'' ''A'' ''**D06C01'',
      receipt ''2025-11-05T10:15:00Z'' ''B'' ''**D07C01'',
      receipt ''2025-11-05T10:45:00Z'' ''A'' ''**D07C02''] []
     = Inr (Some \<lparr>day = 7, date = ''2025-11-05'', receipts = 2, addresses = Some 2,
                   star = Num 0, night = Num 0\<rparr>) \<and>
   dateFromChallengeId ''**D07C01'' = Inr (utcDate (now exampleHost)) \<and>
   dateFromChallengeId ''**D07C02'' = Inr (utcDate (now exampleHost)) \<and>
   dayFromChallengeId ''**D07C01'' = Inr 7 \<and> dayFromChallengeId ''**D07C02'' = Inr 7"
proof -
  let ?r1 = "[receipt ''2025-11-05T08:20:00Z'' ''A'' ''**D06C01'']"
  let ?r2 = "[receipt ''2025-11-05T08:20:00Z'' ''A'' ''**D06C01'',
      receipt ''2025-11-05T10:15:00Z'' ''B'' ''**D07C01'',
      receipt ''2025-11-05T10:45:00Z'' ''A'' ''**D07C02'']"
  let ?s = "\<lparr>day = 7, date = ''2025-11-05'', receipts = 2, addresses = Some 2,
                   star = Num 0, night = Num 0\<rparr>"
  have clock: "\<bar>now exampleHost\<bar> \<le> maxTime"
    by (simp add: exampleHost_def maxTime_def)
  have other: "\<forall>r\<in>set ?r1. \<exists>d. dateFromChallengeId (challenge_id r) = Inr d \<and>
      d \<noteq> utcDate (now exampleHost)"
    by (simp add: date_examples utcDate_example)
  have none: "getTodayStats exampleHost ?r1 [] = Inr None"
    using getTodayStats_today [where h = exampleHost and rs = ?r1 and rates = "[]"] clock other
    by blast
  have d7: "dayFromChallengeId ''**D07C01'' = Inr 7"
    by (simp add: day_eval)
  have some: "getTodayStats exampleHost ?r2 [] = Inr (Some ?s)"
    unfolding getTodayStats_cases [OF clock] utcDate_example
    by (simp add: isToday_def date_examples d7 starPerReceipt_def index_def fl_def
        jsdiv_zero_million)
  have "\<forall>r\<in>set ?r2. dateFromChallengeId (challenge_id r) = Inr (utcDate (now exampleHost)) \<longrightarrow>
      dayFromChallengeId (challenge_id r) = Inr (day ?s)"
    using getTodayStats_today [where h = exampleHost and rs = ?r2 and rates = "[]" and s = ?s]
      clock some
    by blast
  then have "dayFromChallengeId ''**D07C01'' = Inr 7 \<and> dayFromChallengeId ''**D07C02'' = Inr 7"
    by (simp add: date_examples utcDate_example)
  with clock none some show ?thesis
    by (simp add: date_examples utcDate_example)
qed

section \<open>The result of computeStats\<close>

subsection \<open>The entries of one address and of one day\<close>

lemma addressDay_Inr:
  "addressDay rates p = Inr d \<Longrightarrow>
   day d = fst p \<and> DayStats.receipts d = snd p \<and>
   dateFromChallengeId (challengeIdOfDay (fst p)) = Inr (date d) \<and>
   DayStats.star d = jsmul (Num (of_nat (snd p))) (starPerReceipt rates (fst p)) \<and>
   DayStats.night d = jsdiv (DayStats.star d) million"
  by (auto simp: addressDay_def Let_def split: sum.splits)

lemma err_addressDay: "err (addressDay rates p) = err (dateFromChallengeId (challengeIdOfDay (fst p)))"
  by (auto simp: addressDay_def Let_def split: sum.splits)

lemma globalDay_Inr:
  "globalDay rs rates p = Inr d \<Longrightarrow>
   day d = fst p \<and>
   DayStats.receipts d = length (filter (\<lambda>r. dayFromChallengeId (challenge_id r) = Inr (fst p)) rs) \<and>
   DayStats.addresses d = Some (length (snd p)) \<and>
   dateFromChallengeId (challengeIdOfDay (fst p)) = Inr (date d) \<and>
   DayStats.star d = jsmul (Num (of_nat (DayStats.receipts d))) (starPerReceipt rates (fst p)) \<and>
   DayStats.night d = jsdiv (DayStats.star d) million"
  by (auto simp: globalDay_def Let_def split: sum.splits)

lemma err_globalDay: "err (globalDay rs rates p) = err (dateFromChallengeId (challengeIdOfDay (fst p)))"
  by (auto simp: globalDay_def Let_def split: sum.splits)

lemma list_all2_map_eq:
  "list_all2 (\<lambda>x y. f x = Inr y) xs ys \<Longrightarrow> (\<And>x y. f x = Inr y \<Longrightarrow> g y = k x) \<Longrightarrow> map g ys = map k xs"
  by (induction xs ys rule: list_all2_induct) auto

lemma mapE_map:
  "mapE f xs = Inr ys \<Longrightarrow> (\<And>x y. f x = Inr y \<Longrightarrow> g y = k x) \<Longrightarrow> map g ys = map k xs"
  by (rule list_all2_map_eq [OF mapE_Inr])

lemma mapE_all:
  "mapE f xs = Inr ys \<Longrightarrow> \<forall>x\<in>set xs. \<forall>y. f x = Inr y \<longrightarrow> P y \<Longrightarrow> \<forall>y\<in>set ys. P y"
  by (induction xs arbitrary: ys) (auto split: sum.splits)

lemma foldl_add_sum: "foldl (\<lambda>n d. n + f d) a ds = a + sum_list (map f ds)" for a :: nat
  by (induction ds arbitrary: a) auto

lemma sum_list_sort_key: "sum_list (map f (sort_key k xs)) = sum_list (map f xs)" for f :: "'a \<Rightarrow> nat"
proof -
  have "sum_mset (mset (map f (sort_key k xs))) = sum_mset (mset (map f xs))"
    by simp
  then show ?thesis
    by (simp only: sum_mset_sum_list)
qed

lemma addressEntry_Inr:
  assumes "addressEntry rates ats e = Inr a"
  shows "\<exists>ds. mapE (addressDay rates) (snd e) = Inr ds \<and>
     AddressStats.address a = fst e \<and> AddressStats.days a = sortDays ds \<and>
     AddressStats.totalReceipts a = sum_list (map snd (snd e)) \<and>
     totalStar a = foldl (\<lambda>s d. jsadd s (DayStats.star d)) (Num 0) ds \<and>
     totalNight a = jsdiv (totalStar a) million"
proof -
  from assms obtain ds where ds: "mapE (addressDay rates) (snd e) = Inr ds"
    by (auto simp: addressEntry_def split: sum.splits)
  have "map DayStats.receipts ds = map snd (snd e)"
    using ds by (rule mapE_map) (simp add: addressDay_Inr)
  then have "foldl (\<lambda>n d. n + DayStats.receipts d) 0 ds = sum_list (map snd (snd e))"
    by (simp add: foldl_add_sum)
  with assms ds show ?thesis
    by (auto simp: addressEntry_def Let_def)
qed

lemma err_addressEntry:
  "err (addressEntry rates ats e) =
     firstErr (map (\<lambda>p. err (dateFromChallengeId (challengeIdOfDay (fst p)))) (snd e))"
proof -
  have "err (addressEntry rates ats e) = err (mapE (addressDay rates) (snd e))"
    by (auto simp: addressEntry_def Let_def split: sum.splits)
  then show ?thesis
    by (simp add: err_mapE err_addressDay)
qed

subsection \<open>The second grouping loop\<close>

definition bumpDay :: "nat \<Rightarrow> string \<Rightarrow> (nat \<times> string list) list \<Rightarrow> (nat \<times> string list) list" where
  "bumpDay d a gdm = AList.update d (setAdd a (case map_of gdm d of None \<Rightarrow> [] | Some l \<Rightarrow> l)) gdm"

lemma groupByDay_Cons:
  "groupByDay (r # rs) gdm =
     (case dayFromChallengeId (challenge_id r) of
        Inl e \<Rightarrow> Inl e
      | Inr d \<Rightarrow> groupByDay rs (bumpDay d (ReceiptEntry.address r) gdm))"
  by (auto simp: bumpDay_def Let_def update_conv' split: sum.splits option.splits)

lemma groupByDay_decodes:
  "\<forall>r\<in>set rs. decodes r \<Longrightarrow>
   groupByDay rs gdm = Inr (fold (\<lambda>r. bumpDay (dayOf r) (ReceiptEntry.address r)) rs gdm)"
  by (induction rs arbitrary: gdm)
     (auto simp: groupByDay_Cons decodes_dayOf simp del: groupByDay.simps(2))

lemma keys_fold_bumpDay:
  "distinct (map fst gdm) \<Longrightarrow>
   distinct (map fst (fold (\<lambda>r. bumpDay (dayOf r) (ReceiptEntry.address r)) rs gdm)) \<and>
   set (map fst (fold (\<lambda>r. bumpDay (dayOf r) (ReceiptEntry.address r)) rs gdm))
     = set (map fst gdm) \<union> dayOf ` set rs"
proof (induction rs arbitrary: gdm)
  case Nil
  then show ?case by simp
next
  case (Cons r rs)
  have "distinct (map fst (bumpDay (dayOf r) (ReceiptEntry.address r) gdm))"
    unfolding bumpDay_def using Cons.prems by (rule distinct_update)
  moreover have "set (map fst (bumpDay (dayOf r) (ReceiptEntry.address r) gdm))
      = insert (dayOf r) (set (map fst gdm))"
    by (simp add: bumpDay_def dom_update)
  ultimately show ?case
    using Cons.IH [of "bumpDay (dayOf r) (ReceiptEntry.address r) gdm"] by auto
qed

subsection \<open>What computeStats returns\<close>

lemma computeStats_Inr:
  assumes "computeStats rs rates = Inr g" "rs \<noteq> []"
  shows "\<exists>adm ats unsorted gdm ds.
     groupByAddress rs [] [] = Inr (adm, ats) \<and>
     mapE (addressEntry rates ats) adm = Inr unsorted \<and>
     groupByDay rs [] = Inr gdm \<and>
     mapE (globalDay rs rates) gdm = Inr ds \<and>
     GlobalStats.days g = sortDays ds \<and> byAddress g = sortAddresses unsorted \<and>
     GlobalStats.totalReceipts g = length rs \<and> totalAddresses g = length adm \<and>
     GrandTotal.receipts (grandTotal g) = length rs \<and>
     GrandTotal.star (grandTotal g)
       = foldl (\<lambda>s a. jsadd s (totalStar a)) (Num 0) (byAddress g) \<and>
     GrandTotal.night (grandTotal g)
       = foldl (\<lambda>s a. jsadd s (totalNight a)) (Num 0) (byAddress g)"
  using assms by (auto simp: computeStats_def Let_def split: sum.splits)

lemma computeStats_Nil: "computeStats [] rates = Inr emptyStats"
  by (simp add: computeStats_def)

section \<open>A worked example of computeStats\<close>

text \<open>Two addresses with one receipt each, on day 2 and on day 3.\<close>

definition exampleReceipts :: "ReceiptEntry list" where
  "exampleReceipts =
     [receipt ''2025-11-05T10:15:00Z'' ''A'' ''**D02C00'',
      receipt ''2025-11-05T10:45:00Z'' ''B'' ''**D03C00'']"

lemma day_examples:
  "dayFromChallengeId ''**D02C00'' = Inr 2" "dayFromChallengeId ''**D03C00'' = Inr 3"
  by (simp_all add: day_eval)

lemma dateFromChallengeId_challengeIdOfDay:
  "d \<le> 99979610 \<Longrightarrow> dateFromChallengeId (challengeIdOfDay d) = Inr (isoDate (20390 + int d))"
  by (rule dateFromChallengeId_eval [OF dayFromChallengeId_challengeIdOfDay])

lemma isoDate_20392: "isoDate 20392 = ''2025-10-31''"
  unfolding isoDate_def monthFromDay_def Let_def by (simp add: date_eval)

lemma isoDate_20393: "isoDate 20393 = ''2025-11-01''"
  unfolding isoDate_def monthFromDay_def Let_def by (simp add: date_eval)

lemma date_of_day_examples:
  "dateFromChallengeId (challengeIdOfDay 2) = Inr ''2025-10-31''"
  "dateFromChallengeId (challengeIdOfDay 3) = Inr ''2025-11-01''"
  using dateFromChallengeId_challengeIdOfDay [of 2] dateFromChallengeId_challengeIdOfDay [of 3]
  by (simp_all add: isoDate_20392 isoDate_20393)

lemma groupByAddress_example:
  "groupByAddress exampleReceipts [] [] =
     Inr ([(''A'', [(2, 1)]), (''B'', [(3, 1)])],
          [(''A'', [''2025-11-05T10:15:00Z'']), (''B'', [''2025-11-05T10:45:00Z''])])"
  unfolding exampleReceipts_def groupByAddress.simps Let_def
  by (simp add: day_examples countDay_def)

lemma groupByDay_example:
  "groupByDay exampleReceipts [] = Inr [(2, [''A'']), (3, [''B''])]"
  unfolding exampleReceipts_def groupByDay.simps Let_def
  by (simp add: day_examples setAdd_def)

lemma fl_small:
  "fl 4 = Num 4" "fl 5 = Num 5"
  unfolding fl_def floorLog2_def roundHalfEven_def Let_def
  by (simp_all add: pow2_def)

lemma floorLog2_micro:
  "floorLog2 (1 / 1000000) = - 20" "floorLog2 (1 / 250000) = - 18" "floorLog2 (1 / 200000) = - 18"
  "floorLog2 (4722366482869645 / 4722366482869645213696) = - 20"
  "floorLog2 (23611832414348225 / 4722366482869645213696) = - 18"
  by (simp_all add: floorLog2_def ceiling_rat_numeral)

lemma fl_micro:
  "fl (1 / 1000000) = Num (4722366482869645 / 4722366482869645213696)"
  "fl (1 / 250000) = Num (4722366482869645 / 1180591620717411303424)"
  "fl (1 / 200000) = Num (5902958103587057 / 1180591620717411303424)"
  "fl (4722366482869645 / 4722366482869645213696) = Num (4722366482869645 / 4722366482869645213696)"
  "fl (23611832414348225 / 4722366482869645213696) = Num (368934881474191 / 73786976294838206464)"
  unfolding fl_def roundHalfEven_def Let_def
  by (simp_all add: floorLog2_micro pow2_def floor_rat_numeral)

lemma night_examples:
  "jsdiv (Num 1) million = Num (4722366482869645 / 4722366482869645213696)"
  "jsdiv (Num 4) million = Num (4722366482869645 / 1180591620717411303424)"
  "jsdiv (Num 5) million = Num (5902958103587057 / 1180591620717411303424)"
  by (simp_all add: million_def fl_micro)

lemma night_sum_example:
  "jsadd (jsadd (Num 0) (Num (4722366482869645 / 4722366482869645213696)))
     (Num (4722366482869645 / 1180591620717411303424))
   = Num (368934881474191 / 73786976294838206464)"
  by (simp add: fl_micro)

definition exampleStats :: GlobalStats where
  "exampleStats =
     \<lparr>totalReceipts = 2, totalAddresses = 2,
      days =
        [\<lparr>day = 3, date = ''2025-11-01'', receipts = 1, addresses = Some 1, star = Num 4,
           night = Num (4722366482869645 / 1180591620717411303424)\<rparr>,
         \<lparr>day = 2, date = ''2025-10-31'', receipts = 1, addresses = Some 1, star = Num 1,
           night = Num (4722366482869645 / 4722366482869645213696)\<rparr>],
      byAddress =
        [\<lparr>address = ''A'',
           days =
             [\<lparr>day = 2, date = ''2025-10-31'', receipts = 1, addresses = None, star = Num 1,
                night = Num (4722366482869645 / 4722366482869645213696)\<rparr>],
           totalReceipts = 1, totalStar = Num 1,
           totalNight = Num (4722366482869645 / 4722366482869645213696),
           firstSolution = Some ''2025-11-05T10:15:00Z'',
           lastSolution = Some ''2025-11-05T10:15:00Z''\<rparr>,
         \<lparr>address = ''B'',
           days =
             [\<lparr>day = 3, date = ''2025-11-01'', receipts = 1, addresses = None, star = Num 4,
                night = Num (4722366482869645 / 1180591620717411303424)\<rparr>],
           totalReceipts = 1, totalStar = Num 4,
           totalNight = Num (4722366482869645 / 1180591620717411303424),
           firstSolution = Some ''2025-11-05T10:45:00Z'',
           lastSolution = Some ''2025-11-05T10:45:00Z''\<rparr>],
      startDate = Some ''2025-10-31'', endDate = Some ''2025-11-01'',
      grandTotal =
        \<lparr>receipts = 2, star = Num 5,
         night = Num (368934881474191 / 73786976294838206464)\<rparr>\<rparr>"

lemma star_examples:
  "starPerReceipt [Num 0, Num 1, Num 4] 2 = Num 1" "starPerReceipt [Num 0, Num 1, Num 4] 3 = Num 4"
  by (simp_all add: starPerReceipt_def index_def)

lemma addressDay_examples:
  "addressDay [Num 0, Num 1, Num 4] (2, 1) =
     Inr \<lparr>day = 2, date = ''2025-10-31'', receipts = 1, addresses = None, star = Num 1,
          night = Num (4722366482869645 / 4722366482869645213696)\<rparr>"
  "addressDay [Num 0, Num 1, Num 4] (3, 1) =
     Inr \<lparr>day = 3, date = ''2025-11-01'', receipts = 1, addresses = None, star = Num 4,
          night = Num (4722366482869645 / 1180591620717411303424)\<rparr>"
  unfolding addressDay_def Let_def
  by (simp_all add: date_of_day_examples star_examples fl_one fl_small night_examples)

lemma addressEntry_examples:
  "addressEntry [Num 0, Num 1, Num 4]
     [(''A'', [''2025-11-05T10:15:00Z'']), (''B'', [''2025-11-05T10:45:00Z''])] (''A'', [(2, 1)])
   = Inr (byAddress exampleStats ! 0)"
  "addressEntry [Num 0, Num 1, Num 4]
     [(''A'', [''2025-11-05T10:15:00Z'']), (''B'', [''2025-11-05T10:45:00Z''])] (''B'', [(3, 1)])
   = Inr (byAddress exampleStats ! 1)"
  unfolding addressEntry_def Let_def snd_conv fst_conv mapE.simps addressDay_examples sum.case
  by (simp_all add: sortDays_def exampleStats_def fl_one fl_small night_examples)

lemma globalDay_examples:
  "globalDay exampleReceipts [Num 0, Num 1, Num 4] (2, [''A'']) = Inr (GlobalStats.days exampleStats ! 1)"
  "globalDay exampleReceipts [Num 0, Num 1, Num 4] (3, [''B'']) = Inr (GlobalStats.days exampleStats ! 0)"
  unfolding globalDay_def Let_def
  by (simp_all add: date_of_day_examples star_examples fl_one fl_small night_examples
      exampleReceipts_def day_examples exampleStats_def)

lemma computeStats_example: "computeStats exampleReceipts [Num 0, Num 1, Num 4] = Inr exampleStats"
proof -
  have ne: "length exampleReceipts \<noteq> 0"
    by (simp add: exampleReceipts_def)
  have un: "mapE (addressEntry [Num 0, Num 1, Num 4]
        [(''A'', [''2025-11-05T10:15:00Z'']), (''B'', [''2025-11-05T10:45:00Z''])])
      [(''A'', [(2, 1)]), (''B'', [(3, 1)])] = Inr (byAddress exampleStats)"
    unfolding mapE.simps addressEntry_examples sum.case by (simp add: exampleStats_def)
  have ds: "mapE (globalDay exampleReceipts [Num 0, Num 1, Num 4]) [(2, [''A'']), (3, [''B''])]
      = Inr (rev (GlobalStats.days exampleStats))"
    unfolding mapE.simps globalDay_examples sum.case by (simp add: exampleStats_def)
  have sa: "sortAddresses (byAddress exampleStats) = byAddress exampleStats"
    by (simp add: sortAddresses_def exampleStats_def)
  have sd: "sortDays (rev (GlobalStats.days exampleStats)) = GlobalStats.days exampleStats"
    by (simp add: sortDays_def exampleStats_def)
  have len: "length exampleReceipts = 2"
    by (simp add: exampleReceipts_def)
  show ?thesis
    unfolding computeStats_def Let_def groupByAddress_example groupByDay_example sum.case
      prod.case un ds sa sd
    by (simp add: len) (simp add: exampleStats_def fl_one fl_small fl_micro)
qed

section \<open>Receipt counts per day\<close>

lemma sum_list_indicator:
  "distinct ks \<Longrightarrow> x \<in> set ks \<Longrightarrow> (\<Sum>k\<leftarrow>ks. if x = k then 1 else 0) = (1::nat)"
  by (induction ks) auto

lemma sum_filter_partition:
  assumes "distinct ks" "\<forall>r\<in>set rs. f r \<in> set ks"
  shows "(\<Sum>k\<leftarrow>ks. length (filter (\<lambda>r. f r = k) rs)) = length rs"
  using assms(2)
proof (induction rs)
  case Nil
  then show ?case by simp
next
  case (Cons a rs)
  have "(\<Sum>k\<leftarrow>ks. length (filter (\<lambda>r. f r = k) (a # rs)))
      = (\<Sum>k\<leftarrow>ks. length (filter (\<lambda>r. f r = k) rs) + (if f a = k then 1 else 0))"
    by (intro arg_cong [where f = sum_list] map_cong) auto
  also have "\<dots> = (\<Sum>k\<leftarrow>ks. length (filter (\<lambda>r. f r = k) rs)) + (\<Sum>k\<leftarrow>ks. if f a = k then 1 else 0)"
    by (simp add: sum_list_addf)
  also have "\<dots> = length rs + 1"
    using Cons assms(1) by (simp add: sum_list_indicator)
  finally show ?case
    by simp
qed

lemma filter_day_decodes:
  "\<forall>r\<in>set rs. decodes r \<Longrightarrow>
   filter (\<lambda>r. dayFromChallengeId (challenge_id r) = Inr k) rs = filter (\<lambda>r. dayOf r = k) rs"
  by (intro filter_cong) (auto simp: dayOf_eq_iff)

text \<open>The receipts that one address's entry reports for day \<open>k\<close>.\<close>

definition dayCount :: "AddressStats \<Rightarrow> nat \<Rightarrow> nat" where
  "dayCount a k =
     sum_list (map DayStats.receipts (filter (\<lambda>x. day x = k) (AddressStats.days a)))"

lemma dayCount_entry:
  assumes "addressEntry rates ats e = Inr a"
  shows "dayCount a k = dsum (snd e) k"
proof -
  obtain ds where ds: "mapE (addressDay rates) (snd e) = Inr ds"
    "AddressStats.days a = sortDays ds"
    using addressEntry_Inr [OF assms] by blast
  have "map (\<lambda>x. if day x = k then DayStats.receipts x else 0) ds
      = map (\<lambda>p. if fst p = k then snd p else 0) (snd e)"
    using ds(1) by (rule mapE_map) (simp add: addressDay_Inr)
  then have "sum_list (map (\<lambda>x. if day x = k then DayStats.receipts x else 0) ds) = dsum (snd e) k"
    by (simp add: dsum_def)
  moreover have "dayCount a k
      = sum_list (map (\<lambda>x. if day x = k then DayStats.receipts x else 0) (sortDays ds))"
    unfolding dayCount_def ds(2) by (rule sum_list_map_filter')
  ultimately show ?thesis
    by (simp add: sortDays_def sum_list_sort_key)
qed

lemma computeStats_day_counts:
  assumes "computeStats rs rates = Inr g" "rs \<noteq> []"
  shows "sum_list (map DayStats.receipts (GlobalStats.days g)) = length rs"
    and "\<forall>d\<in>set (GlobalStats.days g).
           DayStats.receipts d = sum_list (map (\<lambda>a. dayCount a (day d)) (byAddress g))"
    and "\<forall>d\<in>set (GlobalStats.days g).
           DayStats.receipts d
             = length (filter (\<lambda>r. dayFromChallengeId (challenge_id r) = Inr (day d)) rs)"
proof -
  obtain adm ats unsorted gdm ds where
    ga: "groupByAddress rs [] [] = Inr (adm, ats)" and
    un: "mapE (addressEntry rates ats) adm = Inr unsorted" and
    gd: "groupByDay rs [] = Inr gdm" and
    md: "mapE (globalDay rs rates) gdm = Inr ds" and
    g: "GlobalStats.days g = sortDays ds" "byAddress g = sortAddresses unsorted"
    using computeStats_Inr [OF assms] by blast
  have dec: "\<forall>r\<in>set rs. decodes r"
    using ga by (rule groupByAddress_Inr_decodes)
  have adm: "adm = fold (\<lambda>r. bump (ReceiptEntry.address r) (dayOf r)) rs []"
    using ga groupByAddress_decodes [OF dec, of "[]" "[]"] by simp
  have gdm: "gdm = fold (\<lambda>r. bumpDay (dayOf r) (ReceiptEntry.address r)) rs []"
    using gd groupByDay_decodes [OF dec, of "[]"] by simp
  have keys: "distinct (map fst gdm)" "set (map fst gdm) = dayOf ` set rs"
    using keys_fold_bumpDay [of "[]" rs] unfolding gdm by simp_all
  have cnt: "map DayStats.receipts ds = map (\<lambda>p. length (filter (\<lambda>r. dayOf r = fst p) rs)) gdm"
    using md by (rule mapE_map) (simp add: globalDay_Inr filter_day_decodes [OF dec])
  have "sum_list (map DayStats.receipts (GlobalStats.days g)) = sum_list (map DayStats.receipts ds)"
    by (simp add: g(1) sortDays_def sum_list_sort_key)
  also have "\<dots> = (\<Sum>k\<leftarrow>map fst gdm. length (filter (\<lambda>r. dayOf r = k) rs))"
    by (simp add: cnt comp_def)
  also have "\<dots> = length rs"
    using keys by (intro sum_filter_partition) auto
  finally show "sum_list (map DayStats.receipts (GlobalStats.days g)) = length rs" .
  have total: "sum_list (map (\<lambda>a. dayCount a k) (byAddress g))
      = length (filter (\<lambda>r. dayOf r = k) rs)" for k
  proof -
    have "map (\<lambda>a. dayCount a k) unsorted = map (\<lambda>e. dsum (snd e) k) adm"
      using un by (rule mapE_map) (rule dayCount_entry)
    then have "sum_list (map (\<lambda>a. dayCount a k) unsorted) = tsum adm k"
      by (simp add: tsum_def)
    also have "\<dots> = tsum [] k + length (filter (\<lambda>r. dayOf r = k) rs)"
      unfolding adm by (rule tsum_fold)
    also have "tsum [] k = 0"
      by (simp add: tsum_def)
    finally show ?thesis
      by (simp add: g(2) sortAddresses_def sum_list_sort_key)
  qed
  have each: "\<forall>d\<in>set ds. DayStats.receipts d = length (filter (\<lambda>r. dayOf r = day d) rs)"
    using md by (rule mapE_all) (simp add: globalDay_Inr filter_day_decodes [OF dec])
  then show "\<forall>d\<in>set (GlobalStats.days g).
      DayStats.receipts d = sum_list (map (\<lambda>a. dayCount a (day d)) (byAddress g))"
    by (simp add: g(1) sortDays_def total)
  from each show "\<forall>d\<in>set (GlobalStats.days g).
      DayStats.receipts d
        = length (filter (\<lambda>r. dayFromChallengeId (challenge_id r) = Inr (day d)) rs)"
    by (simp add: g(1) sortDays_def filter_day_decodes [OF dec])
qed

subsection \<open>When computeStats returns\<close>

lemma keys_countDay: "fst ` set (countDay d dm) = insert d (fst ` set dm)"
  by (simp add: countDay_def dom_update)

lemma inner_keys_bump:
  assumes "\<forall>p\<in>set adm. fst ` set (snd p) \<subseteq> D" "d \<in> D"
  shows "\<forall>p\<in>set (bump a d adm). fst ` set (snd p) \<subseteq> D"
proof -
  have "fst ` set (case map_of adm a of None \<Rightarrow> [] | Some m \<Rightarrow> m) \<subseteq> D"
  proof (cases "map_of adm a")
    case None
    then show ?thesis by simp
  next
    case (Some m)
    then have "(a, m) \<in> set adm"
      by (rule map_of_SomeD)
    then have "fst ` set (snd (a, m)) \<subseteq> D"
      using assms(1) by blast
    then show ?thesis
      using Some by simp
  qed
  then have "fst ` set (countDay d (case map_of adm a of None \<Rightarrow> [] | Some m \<Rightarrow> m)) \<subseteq> D"
    using assms(2) by (simp add: keys_countDay)
  then show ?thesis
    using assms(1) set_alist_update [of a _ adm] unfolding bump_def by fastforce
qed

lemma inner_keys_fold:
  "\<forall>p\<in>set adm. fst ` set (snd p) \<subseteq> D \<Longrightarrow> dayOf ` set rs \<subseteq> D \<Longrightarrow>
   \<forall>p\<in>set (fold (\<lambda>r. bump (ReceiptEntry.address r) (dayOf r)) rs adm). fst ` set (snd p) \<subseteq> D"
proof (induction rs arbitrary: adm)
  case Nil
  then show ?case by simp
next
  case (Cons r rs)
  have "\<forall>p\<in>set (bump (ReceiptEntry.address r) (dayOf r) adm). fst ` set (snd p) \<subseteq> D"
    using Cons.prems by (intro inner_keys_bump) auto
  then show ?case
    using Cons.IH [of "bump (ReceiptEntry.address r) (dayOf r) adm"] Cons.prems(2) by simp
qed

lemma firstErr_all_None: "\<forall>e\<in>set es. e = None \<Longrightarrow> firstErr es = None"
  by (simp add: firstErr_None_iff)

lemma computeStats_returns:
  assumes "\<forall>r\<in>set rs. \<exists>n. dayFromChallengeId (challenge_id r) = Inr n \<and> n \<le> 99979610"
  shows "\<exists>g. computeStats rs rates = Inr g"
proof (cases "rs = []")
  case True
  then show ?thesis
    by (simp add: computeStats_Nil)
next
  case False
  let ?D = "{n. n \<le> 99979610}"
  have dec: "\<forall>r\<in>set rs. decodes r"
    using assms by (auto simp: decodes_def)
  have days: "dayOf ` set rs \<subseteq> ?D"
    using assms by (auto simp: dayOf_def)
  have dated: "err (dateFromChallengeId (challengeIdOfDay d)) = None" if "d \<in> ?D" for d
    using that dateFromChallengeId_challengeIdOfDay [of d] by simp
  let ?adm = "fold (\<lambda>r. bump (ReceiptEntry.address r) (dayOf r)) rs []"
  let ?ats = "fold (\<lambda>r. pushStamp (ReceiptEntry.address r) (ts r)) rs []"
  let ?gdm = "fold (\<lambda>r. bumpDay (dayOf r) (ReceiptEntry.address r)) rs []"
  have ga: "groupByAddress rs [] [] = Inr (?adm, ?ats)"
    by (rule groupByAddress_decodes [OF dec])
  have gd: "groupByDay rs [] = Inr ?gdm"
    by (rule groupByDay_decodes [OF dec])
  have inner: "\<forall>p\<in>set ?adm. fst ` set (snd p) \<subseteq> ?D"
    using days by (intro inner_keys_fold) simp_all
  have "err (addressEntry rates ?ats e) = None" if "e \<in> set ?adm" for e
    unfolding err_addressEntry using inner that dated
    by (intro firstErr_all_None) fastforce
  then have "err (mapE (addressEntry rates ?ats) ?adm) = None"
    unfolding err_mapE by (intro firstErr_all_None) auto
  then obtain unsorted where un: "mapE (addressEntry rates ?ats) ?adm = Inr unsorted"
    by (auto simp: err_None_iff)
  have "set (map fst ?gdm) = dayOf ` set rs"
    using keys_fold_bumpDay [of "[]" rs] by simp
  then have "err (globalDay rs rates e) = None" if "e \<in> set ?gdm" for e
    unfolding err_globalDay using that days by (intro dated) force
  then have "err (mapE (globalDay rs rates) ?gdm) = None"
    unfolding err_mapE by (intro firstErr_all_None) auto
  then obtain ds where ds: "mapE (globalDay rs rates) ?gdm = Inr ds"
    by (auto simp: err_None_iff)
  from False show ?thesis
    by (simp add: computeStats_def ga un gd ds Let_def)
qed

text \<open>
  Claim C2. For a non-empty receipt list whose identifiers all decode, the receipt counts
  of the global days list that \<open>computeStats\<close> returns add up to the number of receipts,
  and each day's count is the sum over the addresses of the count that address reports
  for the day. The call returns whenever every day number is one a \<open>Date\<close> can hold.
\<close>

theorem computeStats_receipt_counts:
  "(rs \<noteq> [] \<and> (\<forall>r\<in>set rs. matchesPattern (challenge_id r)) \<and> computeStats rs rates = Inr g \<longrightarrow>
      sum_list (map DayStats.receipts (GlobalStats.days g)) = length rs \<and>
      (\<forall>d\<in>set (GlobalStats.days g).
         DayStats.receipts d = sum_list (map (\<lambda>a. dayCount a (day d)) (byAddress g)) \<and>
         DayStats.receipts d
           = length (filter (\<lambda>r. dayFromChallengeId (challenge_id r) = Inr (day d)) rs))) \<and>
   ((\<forall>r\<in>set rs. \<exists>n. dayFromChallengeId (challenge_id r) = Inr n \<and> n \<le> 99979610) \<longrightarrow>
      (\<exists>g'. computeStats rs rates = Inr g'))"
  using computeStats_day_counts [of rs rates g] computeStats_returns [of rs rates]
  by blast

theorem computeStats_receipt_counts_witness:
  "exampleReceipts \<noteq> [] \<and>
   matchesPattern ''**D02C00'' \<and> matchesPattern ''**D03C00'' \<and>
   computeStats exampleReceipts [Num 0, Num 1, Num 4] = Inr exampleStats \<and>
   sum_list (map DayStats.receipts (GlobalStats.days exampleStats)) = length exampleReceipts \<and>
   length exampleReceipts = 2 \<and>
   DayStats.receipts (GlobalStats.days exampleStats ! 0)
     = sum_list (map (\<lambda>a. dayCount a 3) (byAddress exampleStats)) \<and>
   DayStats.receipts (GlobalStats.days exampleStats ! 1)
     = sum_list (map (\<lambda>a. dayCount a 2) (byAddress exampleStats))"
proof -
  have m: "matchesPattern ''**D02C00''" "matchesPattern ''**D03C00''"
    using dayFromChallengeId_Inl_iff [of "''**D02C00''"] dayFromChallengeId_Inl_iff [of "''**D03C00''"]
    by (auto simp: day_examples)
  have ne: "exampleReceipts \<noteq> []" "length exampleReceipts = 2"
    by (simp_all add: exampleReceipts_def)
  have hyp: "exampleReceipts \<noteq> [] \<and> (\<forall>r\<in>set exampleReceipts. matchesPattern (challenge_id r)) \<and>
      computeStats exampleReceipts [Num 0, Num 1, Num 4] = Inr exampleStats"
    using m ne(1) computeStats_example by (simp add: exampleReceipts_def)
  note concl = mp [OF computeStats_receipt_counts
      [where rs = exampleReceipts and rates = "[Num 0, Num 1, Num 4]" and g = exampleStats,
        THEN conjunct1] hyp]
  have total: "sum_list (map DayStats.receipts (GlobalStats.days exampleStats))
      = length exampleReceipts"
    using concl by blast
  have each: "\<forall>d\<in>set (GlobalStats.days exampleStats).
      DayStats.receipts d = sum_list (map (\<lambda>a. dayCount a (day d)) (byAddress exampleStats))"
    using concl by blast
  have d0: "GlobalStats.days exampleStats ! 0 \<in> set (GlobalStats.days exampleStats)"
    "day (GlobalStats.days exampleStats ! 0) = 3"
    "GlobalStats.days exampleStats ! 1 \<in> set (GlobalStats.days exampleStats)"
    "day (GlobalStats.days exampleStats ! 1) = 2"
    by (simp_all add: exampleStats_def)
  have "DayStats.receipts (GlobalStats.days exampleStats ! 0)
      = sum_list (map (\<lambda>a. dayCount a 3) (byAddress exampleStats))"
    using each d0(1) unfolding d0(2) [symmetric] by blast
  moreover have "DayStats.receipts (GlobalStats.days exampleStats ! 1)
      = sum_list (map (\<lambda>a. dayCount a 2) (byAddress exampleStats))"
    using each d0(3) unfolding d0(4) [symmetric] by blast
  ultimately show ?thesis
    using m ne total computeStats_example by simp
qed

section \<open>The night field\<close>

lemma computeStats_night:
  assumes "computeStats rs rates = Inr g"
  shows "(\<forall>d\<in>set (GlobalStats.days g). DayStats.night d = jsdiv (DayStats.star d) million) \<and>
     (\<forall>a\<in>set (byAddress g). totalNight a = jsdiv (totalStar a) million \<and>
        (\<forall>d\<in>set (AddressStats.days a). DayStats.night d = jsdiv (DayStats.star d) million)) \<and>
     GrandTotal.star (grandTotal g)
       = foldl (\<lambda>s a. jsadd s (totalStar a)) (Num 0) (byAddress g) \<and>
     GrandTotal.night (grandTotal g)
       = foldl (\<lambda>s a. jsadd s (totalNight a)) (Num 0) (byAddress g)"
proof (cases "rs = []")
  case True
  with assms have "g = emptyStats"
    by (simp add: computeStats_Nil)
  then show ?thesis
    by (simp add: emptyStats_def)
next
  case False
  from computeStats_Inr [OF assms False] obtain adm ats unsorted gdm ds where
    un: "mapE (addressEntry rates ats) adm = Inr unsorted" and
    ds: "mapE (globalDay rs rates) gdm = Inr ds" and
    g: "GlobalStats.days g = sortDays ds" "byAddress g = sortAddresses unsorted" and
    gt: "GrandTotal.star (grandTotal g)
       = foldl (\<lambda>s a. jsadd s (totalStar a)) (Num 0) (byAddress g)"
      "GrandTotal.night (grandTotal g)
       = foldl (\<lambda>s a. jsadd s (totalNight a)) (Num 0) (byAddress g)"
    by blast
  have "\<forall>d\<in>set ds. DayStats.night d = jsdiv (DayStats.star d) million"
    using ds by (rule mapE_all) (simp add: globalDay_Inr)
  then have days: "\<forall>d\<in>set (GlobalStats.days g). DayStats.night d = jsdiv (DayStats.star d) million"
    by (simp add: g(1) sortDays_def)
  have entry: "totalNight a = jsdiv (totalStar a) million \<and>
      (\<forall>d\<in>set (AddressStats.days a). DayStats.night d = jsdiv (DayStats.star d) million)"
    if "addressEntry rates ats e = Inr a" for e a
  proof -
    from addressEntry_Inr [OF that] obtain ds' where
      ds': "mapE (addressDay rates) (snd e) = Inr ds'" "AddressStats.days a = sortDays ds'"
      "totalNight a = jsdiv (totalStar a) million"
      by blast
    have "\<forall>d\<in>set ds'. DayStats.night d = jsdiv (DayStats.star d) million"
      using ds'(1) by (rule mapE_all) (simp add: addressDay_Inr)
    with ds'(2,3) show ?thesis
      by (simp add: sortDays_def)
  qed
  have "\<forall>a\<in>set unsorted. totalNight a = jsdiv (totalStar a) million \<and>
      (\<forall>d\<in>set (AddressStats.days a). DayStats.night d = jsdiv (DayStats.star d) million)"
    using un by (rule mapE_all) (use entry in blast)
  then have "\<forall>a\<in>set (byAddress g). totalNight a = jsdiv (totalStar a) million \<and>
      (\<forall>d\<in>set (AddressStats.days a). DayStats.night d = jsdiv (DayStats.star d) million)"
    by (simp add: g(2) sortAddresses_def)
  with days gt show ?thesis
    by blast
qed

lemma computeHourlyStats_night:
  "computeHourlyStats h rs rates = Inr (Some e) \<Longrightarrow>
   HourStats.night e = jsdiv (HourStats.star e) million"
  by (auto simp: computeHourlyStats_def Let_def zeroHour_def jsdiv_zero_million
      split: if_splits sum.splits)

lemma hourEntry_night:
  "hourEntry h rs rates i = Inr e \<Longrightarrow> HourStats.night e = jsdiv (HourStats.star e) million"
  by (auto simp: hourEntry_def Let_def split: sum.splits)

lemma lastNLoop_night:
  "lastNLoop h rs rates i = Inr es \<Longrightarrow>
   \<forall>e\<in>set es. HourStats.night e = jsdiv (HourStats.star e) million"
proof (induction h rs rates i arbitrary: es rule: lastNLoop.induct)
  case (1 h rs rates i)
  show ?case
  proof (cases "i < 0")
    case True
    with "1.prems" show ?thesis
      by (simp add: lastNLoop.simps [of h rs rates i])
  next
    case False
    with "1.prems" obtain e es' where e: "hourEntry h rs rates i = Inr e"
      and es': "lastNLoop h rs rates (i - 1) = Inr es'" and es: "es = e # es'"
      by (auto simp: lastNLoop.simps [of h rs rates i] split: sum.splits)
    from "1.IH" [OF False e es'] hourEntry_night [OF e] es show ?thesis
      by simp
  qed
qed

lemma computeLastNHours_night:
  "computeLastNHours h rs rates hours = Inr es \<Longrightarrow>
   \<forall>e\<in>set es. HourStats.night e = jsdiv (HourStats.star e) million"
  using lastNLoop_night [of h rs rates "hours - 1" es]
  by (auto simp: computeLastNHours_def split: if_splits)

lemma getTodayStats_night:
  "getTodayStats h rs rates = Inr (Some d) \<Longrightarrow> DayStats.night d = jsdiv (DayStats.star d) million"
  by (auto simp: getTodayStats_def Let_def split: sum.splits list.splits)

subsection \<open>The example in the hourly functions\<close>

definition exampleHour :: HourStats where
  "exampleHour =
     \<lparr>hour = ''2025-11-05T10:00:00.000Z'', receipts = 2, addresses = 2, star = Num 5,
      night = Num (5902958103587057 / 1180591620717411303424)\<rparr>"

definition exampleToday :: DayStats where
  "exampleToday =
     \<lparr>day = 7, date = ''2025-11-05'', receipts = 2, addresses = Some 2,
      star = Num 0, night = Num 0\<rparr>"

definition todayReceipts :: "ReceiptEntry list" where
  "todayReceipts =
     [receipt ''2025-11-05T08:20:00Z'' ''A'' ''**D06C01'',
      receipt ''2025-11-05T10:15:00Z'' ''B'' ''**D07C01'',
      receipt ''2025-11-05T10:45:00Z'' ''A'' ''**D07C02'']"

lemma starLoop_example:
  "starLoop [Num 0, Num 1, Num 4] exampleReceipts (Num 0) = Inr (Num 5)"
  unfolding exampleReceipts_def starLoop.simps
  by (simp add: day_examples star_examples fl_one fl_small)

lemma inWindow_example:
  "filter (inWindow exampleHost (Some 1762336800000) (Some 1762340400000)) exampleReceipts
     = exampleReceipts"
  by (simp add: exampleReceipts_def inWindow_def newDate_example)

lemma hourEntry_example:
  "hourEntry exampleHost exampleReceipts [Num 0, Num 1, Num 4] 0 = Inr exampleHour"
  unfolding hourEntry_def Let_def hourEntry_start setHours_windowStart
  by (simp add: windowStart_example timeClip_def maxTime_def inWindow_example starLoop_example
      toISOString_example night_examples exampleHour_def)
     (simp add: exampleReceipts_def)

lemma computeLastNHours_example:
  "computeLastNHours exampleHost exampleReceipts [Num 0, Num 1, Num 4] 1 = Inr [exampleHour]"
proof -
  have "lastNLoop exampleHost exampleReceipts [Num 0, Num 1, Num 4] (- 1) = Inr []"
    by (simp add: lastNLoop.simps [of _ _ _ "- 1"])
  then have "lastNLoop exampleHost exampleReceipts [Num 0, Num 1, Num 4] 0 = Inr [exampleHour]"
    by (simp add: lastNLoop.simps [of _ _ _ 0] hourEntry_example)
  then show ?thesis
    by (simp add: computeLastNHours_def exampleReceipts_def)
qed

lemma computeHourlyStats_example:
  "computeHourlyStats exampleHost exampleReceipts [Num 0, Num 1, Num 4] = Inr (Some exampleHour)"
proof -
  have prev: "setHours exampleHost (now exampleHost) (getHours exampleHost (now exampleHost) - 1)
      = Some 1762336800000"
    using setHours_windowStart [of exampleHost 1]
    by (simp add: windowStart_example timeClip_def maxTime_def)
  have cur: "setHours exampleHost (now exampleHost) (getHours exampleHost (now exampleHost))
      = Some 1762340400000"
    using setHours_windowStart [of exampleHost 0]
    by (simp add: windowStart_example timeClip_def maxTime_def)
  have len: "length exampleReceipts = 2"
    by (simp add: exampleReceipts_def)
  show ?thesis
    unfolding computeHourlyStats_def Let_def prev cur inWindow_example starLoop_example
      toISOString_example sum.case
    by (simp add: len night_examples exampleHour_def) (simp add: exampleReceipts_def)
qed

lemma getTodayStats_example: "getTodayStats exampleHost todayReceipts [] = Inr (Some exampleToday)"
proof -
  have clock: "\<bar>now exampleHost\<bar> \<le> maxTime"
    by (simp add: exampleHost_def maxTime_def)
  have d7: "dayFromChallengeId ''**D07C01'' = Inr 7"
    by (simp add: day_eval)
  show ?thesis
    unfolding getTodayStats_cases [OF clock] utcDate_example todayReceipts_def exampleToday_def
    by (simp add: isToday_def date_examples d7 starPerReceipt_def index_def fl_def
        jsdiv_zero_million)
qed

text \<open>
  Claim C1 as stated fails for \<open>grandTotal\<close>: its \<open>night\<close> is the floating-point sum of the
  addresses' \<open>totalNight\<close>, which need not be its \<open>star\<close> divided by 1,000,000. With one
  receipt on day 2 at rate 1 and one on day 3 at rate 4, \<open>grandTotal.star\<close> is 5 and
  \<open>grandTotal.night\<close> is the binary64 sum of 0.000001 and 0.000004, one unit in the last
  place below the binary64 value of 5 / 1000000.
\<close>

theorem grandTotal_night_not_star:
  "computeStats exampleReceipts [Num 0, Num 1, Num 4] = Inr exampleStats \<and>
   GrandTotal.star (grandTotal exampleStats) = Num 5 \<and>
   GrandTotal.night (grandTotal exampleStats) = Num (368934881474191 / 73786976294838206464) \<and>
   jsdiv (GrandTotal.star (grandTotal exampleStats)) million
     = Num (5902958103587057 / 1180591620717411303424) \<and>
   GrandTotal.night (grandTotal exampleStats)
     \<noteq> jsdiv (GrandTotal.star (grandTotal exampleStats)) million"
proof -
  have "GrandTotal.star (grandTotal exampleStats) = Num 5"
    "GrandTotal.night (grandTotal exampleStats) = Num (368934881474191 / 73786976294838206464)"
    by (simp_all add: exampleStats_def)
  then show ?thesis
    by (simp add: computeStats_example night_examples)
qed

text \<open>
  Claim C1, amended. In every \<open>DayStats\<close> and \<open>AddressStats\<close> entry that \<open>computeStats\<close>
  returns, in the \<open>HourStats\<close> of \<open>computeHourlyStats\<close> and \<open>computeLastNHours\<close> and in the
  \<open>DayStats\<close> of \<open>getTodayStats\<close>, \<open>night\<close> is \<open>star\<close> divided by 1,000,000 (\<open>totalNight\<close> is
  \<open>totalStar\<close> divided by 1,000,000). \<open>grandTotal.star\<close> is the sum of the addresses'
  \<open>totalStar\<close> and \<open>grandTotal.night\<close> the sum of the addresses' \<open>totalNight\<close>, both added
  up in the order of \<open>byAddress\<close>.
\<close>

theorem night_is_star_per_million:
  "(computeStats rs rates = Inr g \<longrightarrow>
      (\<forall>d\<in>set (GlobalStats.days g). DayStats.night d = jsdiv (DayStats.star d) million) \<and>
      (\<forall>a\<in>set (byAddress g). totalNight a = jsdiv (totalStar a) million \<and>
         (\<forall>d\<in>set (AddressStats.days a). DayStats.night d = jsdiv (DayStats.star d) million)) \<and>
      GrandTotal.star (grandTotal g)
        = foldl (\<lambda>s a. jsadd s (totalStar a)) (Num 0) (byAddress g) \<and>
      GrandTotal.night (grandTotal g)
        = foldl (\<lambda>s a. jsadd s (jsdiv (totalStar a) million)) (Num 0) (byAddress g)) \<and>
   (computeHourlyStats h rs rates = Inr (Some e) \<longrightarrow>
      HourStats.night e = jsdiv (HourStats.star e) million) \<and>
   (computeLastNHours h rs rates hours = Inr es \<longrightarrow>
      (\<forall>e\<in>set es. HourStats.night e = jsdiv (HourStats.star e) million)) \<and>
   (getTodayStats h rs rates = Inr (Some t) \<longrightarrow>
      DayStats.night t = jsdiv (DayStats.star t) million)"
proof (intro conjI impI)
  assume g: "computeStats rs rates = Inr g"
  note n = computeStats_night [OF g]
  from n show "\<forall>d\<in>set (GlobalStats.days g). DayStats.night d = jsdiv (DayStats.star d) million"
    by blast
  from n show tn: "\<forall>a\<in>set (byAddress g). totalNight a = jsdiv (totalStar a) million \<and>
      (\<forall>d\<in>set (AddressStats.days a). DayStats.night d = jsdiv (DayStats.star d) million)"
    by blast
  from n show "GrandTotal.star (grandTotal g)
      = foldl (\<lambda>s a. jsadd s (totalStar a)) (Num 0) (byAddress g)"
    by blast
  have "foldl (\<lambda>s a. jsadd s (totalNight a)) z as
      = foldl (\<lambda>s a. jsadd s (jsdiv (totalStar a) million)) z as"
    if "\<forall>a\<in>set as. totalNight a = jsdiv (totalStar a) million" for z and as :: "AddressStats list"
    using that by (induction as arbitrary: z) simp_all
  with n tn show "GrandTotal.night (grandTotal g)
      = foldl (\<lambda>s a. jsadd s (jsdiv (totalStar a) million)) (Num 0) (byAddress g)"
    by simp
next
  show "HourStats.night e = jsdiv (HourStats.star e) million"
    if "computeHourlyStats h rs rates = Inr (Some e)"
    using that by (rule computeHourlyStats_night)
  show "\<forall>e\<in>set es. HourStats.night e = jsdiv (HourStats.star e) million"
    if "computeLastNHours h rs rates hours = Inr es"
    using that by (rule computeLastNHours_night)
  show "DayStats.night t = jsdiv (DayStats.star t) million"
    if "getTodayStats h rs rates = Inr (Some t)"
    using that by (rule getTodayStats_night)
qed

theorem night_is_star_per_million_witness:
  "computeStats exampleReceipts [Num 0, Num 1, Num 4] = Inr exampleStats \<and>
   map DayStats.night (GlobalStats.days exampleStats)
     = map (\<lambda>d. jsdiv (DayStats.star d) million) (GlobalStats.days exampleStats) \<and>
   map totalNight (byAddress exampleStats)
     = map (\<lambda>a. jsdiv (totalStar a) million) (byAddress exampleStats) \<and>
   GrandTotal.night (grandTotal exampleStats)
     = jsadd (jsadd (Num 0) (jsdiv (Num 1) million)) (jsdiv (Num 4) million) \<and>
   computeHourlyStats exampleHost exampleReceipts [Num 0, Num 1, Num 4] = Inr (Some exampleHour) \<and>
   computeLastNHours exampleHost exampleReceipts [Num 0, Num 1, Num 4] 1 = Inr [exampleHour] \<and>
   HourStats.night exampleHour = jsdiv (HourStats.star exampleHour) million \<and>
   getTodayStats exampleHost todayReceipts [] = Inr (Some exampleToday) \<and>
   DayStats.night exampleToday = jsdiv (DayStats.star exampleToday) million"
proof -
  note stats = night_is_star_per_million
    [where rs = exampleReceipts and rates = "[Num 0, Num 1, Num 4]" and g = exampleStats,
      THEN conjunct1, THEN mp, OF computeStats_example]
  have days: "map DayStats.night (GlobalStats.days exampleStats)
      = map (\<lambda>d. jsdiv (DayStats.star d) million) (GlobalStats.days exampleStats)"
    using stats by (intro map_cong refl) blast
  have addrs: "map totalNight (byAddress exampleStats)
      = map (\<lambda>a. jsdiv (totalStar a) million) (byAddress exampleStats)"
    using stats by (intro map_cong refl) blast
  have "GrandTotal.night (grandTotal exampleStats)
      = foldl (\<lambda>s a. jsadd s (jsdiv (totalStar a) million)) (Num 0) (byAddress exampleStats)"
    using stats by blast
  also have "\<dots> = jsadd (jsadd (Num 0) (jsdiv (Num 1) million)) (jsdiv (Num 4) million)"
    by (simp add: exampleStats_def)
  finally have total: "GrandTotal.night (grandTotal exampleStats)
      = jsadd (jsadd (Num 0) (jsdiv (Num 1) million)) (jsdiv (Num 4) million)" .
  have hour: "HourStats.night exampleHour = jsdiv (HourStats.star exampleHour) million"
    using night_is_star_per_million
      [where h = exampleHost and rs = exampleReceipts and rates = "[Num 0, Num 1, Num 4]"
        and e = exampleHour, THEN conjunct2, THEN conjunct1, THEN mp,
        OF computeHourlyStats_example] .
  have today: "DayStats.night exampleToday = jsdiv (DayStats.star exampleToday) million"
    using night_is_star_per_million
      [where h = exampleHost and rs = todayReceipts and rates = "[]" and t = exampleToday,
        THEN conjunct2, THEN conjunct2, THEN conjunct2, THEN mp, OF getTodayStats_example] .
  show ?thesis
    using days addrs total hour today computeStats_example computeHourlyStats_example
      computeLastNHours_example getTodayStats_example
    by (intro conjI)
qed

section \<open>Short and empty rate tables\<close>

subsection \<open>The rate of a day outside the table\<close>

lemma starPerReceipt_outside:
  "\<not> (1 \<le> d \<and> d \<le> length rates) \<Longrightarrow> starPerReceipt rates d = Num 0"
  by (auto simp: starPerReceipt_def index_def)

lemma starPerReceipt_inside:
  "1 \<le> d \<Longrightarrow> d \<le> length rates \<Longrightarrow> starPerReceipt rates d = orZero (Some (rates ! (d - 1)))"
proof -
  assume d: "1 \<le> d" "d \<le> length rates"
  then have "0 \<le> int d - 1 \<and> int d - 1 < int (length rates)" "nat (int d - 1) = d - 1"
    by linarith+
  then show ?thesis
    unfolding starPerReceipt_def index_def by simp
qed

lemma starPerReceipt_padded:
  "starPerReceipt (rates @ replicate k (Num 0)) d = starPerReceipt rates d"
proof (cases "1 \<le> d \<and> d \<le> length rates")
  case True
  then have "starPerReceipt (rates @ replicate k (Num 0)) d
      = orZero (Some ((rates @ replicate k (Num 0)) ! (d - 1)))"
    by (intro starPerReceipt_inside) simp_all
  also have "(rates @ replicate k (Num 0)) ! (d - 1) = rates ! (d - 1)"
  proof -
    from True have "d - 1 < length rates"
      by arith
    then show ?thesis
      by (simp only: nth_append if_True)
  qed
  finally show ?thesis
    using True by (simp add: starPerReceipt_inside)
next
  case False
  then have out: "starPerReceipt rates d = Num 0"
    by (rule starPerReceipt_outside)
  show ?thesis
  proof (cases "1 \<le> d \<and> d \<le> length rates + k")
    case True
    then have "starPerReceipt (rates @ replicate k (Num 0)) d
        = orZero (Some ((rates @ replicate k (Num 0)) ! (d - 1)))"
      by (intro starPerReceipt_inside) simp_all
    also have "(rates @ replicate k (Num 0)) ! (d - 1) = Num 0"
    proof -
      from True False have "\<not> d - 1 < length rates" "d - 1 - length rates < k"
        by arith+
      then show ?thesis
        by (simp only: nth_append if_False nth_replicate)
    qed
    finally show ?thesis
      using out by simp
  next
    case False
    then have "starPerReceipt (rates @ replicate k (Num 0)) d = Num 0"
      by (intro starPerReceipt_outside) simp
    with out show ?thesis
      by simp
  qed
qed

subsection \<open>The rate table is read through starPerReceipt only\<close>

lemma starLoop_cong:
  "\<forall>d. starPerReceipt rates d = starPerReceipt rates' d \<Longrightarrow>
   starLoop rates rs acc = starLoop rates' rs acc"
  by (induction rs arbitrary: acc) (auto split: sum.splits)

lemma lastNLoop_cong:
  assumes "\<And>i. hourEntry h rs rates i = hourEntry h rs rates' i"
  shows "lastNLoop h rs rates i = lastNLoop h rs rates' i"
proof (induction "nat (i + 1)" arbitrary: i)
  case 0
  then have "i < 0"
    by simp
  then show ?case
    by (simp add: lastNLoop.simps [of h rs rates i] lastNLoop.simps [of h rs rates' i])
next
  case (Suc m)
  then have m: "m = nat (i - 1 + 1)" and i: "\<not> i < 0"
    by simp_all
  have rest: "lastNLoop h rs rates (i - 1) = lastNLoop h rs rates' (i - 1)"
    using Suc.hyps(1) [OF m] .
  show ?case
    unfolding lastNLoop.simps [of h rs rates i] lastNLoop.simps [of h rs rates' i] assms [of i]
      rest
    by simp
qed

lemma rates_cong:
  assumes "\<forall>d. starPerReceipt rates d = starPerReceipt rates' d"
  shows "computeStats rs rates = computeStats rs rates'"
    and "computeHourlyStats h rs rates = computeHourlyStats h rs rates'"
    and "computeLastNHours h rs rates hours = computeLastNHours h rs rates' hours"
    and "getTodayStats h rs rates = getTodayStats h rs rates'"
proof -
  have ad: "addressDay rates = addressDay rates'"
    using assms by (simp add: addressDay_def fun_eq_iff Let_def cong: sum.case_cong)
  have ae: "addressEntry rates = addressEntry rates'"
    unfolding addressEntry_def ad ..
  have gd: "globalDay rs rates = globalDay rs rates'"
    using assms by (simp add: globalDay_def fun_eq_iff Let_def cong: sum.case_cong)
  show "computeStats rs rates = computeStats rs rates'"
    unfolding computeStats_def ae gd ..
  have sl: "starLoop rates = starLoop rates'"
    using starLoop_cong [OF assms] by (simp add: fun_eq_iff)
  show "computeHourlyStats h rs rates = computeHourlyStats h rs rates'"
    unfolding computeHourlyStats_def sl ..
  have "hourEntry h rs rates i = hourEntry h rs rates' i" for i
    unfolding hourEntry_def sl ..
  then have "lastNLoop h rs rates i = lastNLoop h rs rates' i" for i
    by (rule lastNLoop_cong)
  then show "computeLastNHours h rs rates hours = computeLastNHours h rs rates' hours"
    by (simp add: computeLastNHours_def)
  show "getTodayStats h rs rates = getTodayStats h rs rates'"
    using assms by (simp add: getTodayStats_def Let_def cong: sum.case_cong list.case_cong)
qed

subsection \<open>Exceptions do not depend on the rate table\<close>

lemma err_starLoop:
  "err (starLoop rates rs acc) = firstErr (map (\<lambda>r. err (dayFromChallengeId (challenge_id r))) rs)"
  by (induction rs arbitrary: acc) (auto split: sum.splits)

lemma err_case_sum:
  "err (case x of Inl e \<Rightarrow> Inl e | Inr v \<Rightarrow> f v)
     = (case x of Inl e \<Rightarrow> Some e | Inr v \<Rightarrow> err (f v))"
  by (cases x) simp_all

lemma err_hourEntry: "err (hourEntry h rs rates i) = err (hourEntry h rs rates' i)"
proof -
  let ?hr = "filter (inWindow h (setHours h (now h) (getHours h (now h) - i - 1))
      (setHours h (now h) (getHours h (now h) - i))) rs"
  have "err (starLoop rates ?hr (Num 0)) = err (starLoop rates' ?hr (Num 0))"
    by (simp add: err_starLoop)
  then show ?thesis
    unfolding hourEntry_def Let_def
    by (cases "starLoop rates ?hr (Num 0)"; cases "starLoop rates' ?hr (Num 0)")
       (auto split: sum.splits)
qed

lemma err_lastNLoop: "err (lastNLoop h rs rates i) = err (lastNLoop h rs rates' i)"
proof (induction "nat (i + 1)" arbitrary: i)
  case 0
  then have "i < 0"
    by simp
  then show ?case
    by (simp add: lastNLoop.simps [of h rs rates i] lastNLoop.simps [of h rs rates' i])
next
  case (Suc m)
  then have m: "m = nat (i - 1 + 1)" and i: "\<not> i < 0"
    by simp_all
  have rest: "err (lastNLoop h rs rates (i - 1)) = err (lastNLoop h rs rates' (i - 1))"
    using Suc.hyps(1) [OF m] .
  show ?case
    using err_hourEntry [of h rs rates i rates'] rest i
    unfolding lastNLoop.simps [of h rs rates i] lastNLoop.simps [of h rs rates' i]
    by (cases "hourEntry h rs rates i"; cases "hourEntry h rs rates' i";
        cases "lastNLoop h rs rates (i - 1)"; cases "lastNLoop h rs rates' (i - 1)") simp_all
qed

lemma err_computeLastNHours:
  "err (computeLastNHours h rs rates hours) = err (computeLastNHours h rs rates' hours)"
  by (simp add: computeLastNHours_def err_lastNLoop)

lemma err_computeHourlyStats:
  "err (computeHourlyStats h rs rates) = err (computeHourlyStats h rs rates')"
proof -
  let ?hr = "filter (inWindow h (setHours h (now h) (getHours h (now h) - 1))
      (setHours h (now h) (getHours h (now h)))) rs"
  have "err (starLoop rates ?hr (Num 0)) = err (starLoop rates' ?hr (Num 0))"
    by (simp add: err_starLoop)
  then show ?thesis
    unfolding computeHourlyStats_def Let_def
    by (cases "starLoop rates ?hr (Num 0)"; cases "starLoop rates' ?hr (Num 0)")
       (auto split: sum.splits)
qed

lemma err_getTodayStats: "err (getTodayStats h rs rates) = err (getTodayStats h rs rates')"
  by (auto simp: getTodayStats_def Let_def split: sum.splits list.splits)

lemma err_computeStats: "err (computeStats rs rates) = err (computeStats rs rates')"
proof (cases "rs = []")
  case True
  then show ?thesis
    by (simp add: computeStats_Nil)
next
  case False
  then have ne: "length rs \<noteq> 0"
    by simp
  show ?thesis
  proof (cases "groupByAddress rs [] []")
    case (Inl x)
    with ne show ?thesis
      by (simp add: computeStats_def)
  next
    case (Inr p)
    obtain adm ats where p: "groupByAddress rs [] [] = Inr (adm, ats)"
      using Inr by (cases p) simp
    have A: "err (mapE (addressEntry rates ats) adm) = err (mapE (addressEntry rates' ats) adm)"
      by (simp add: err_mapE err_addressEntry)
    show ?thesis
    proof (cases "groupByDay rs []")
      case (Inl x)
      with A show ?thesis
        unfolding computeStats_def p
        by (cases "mapE (addressEntry rates ats) adm"; cases "mapE (addressEntry rates' ats) adm")
           (simp_all add: ne)
    next
      case (Inr gdm)
      have B: "err (mapE (globalDay rs rates) gdm) = err (mapE (globalDay rs rates') gdm)"
        by (simp add: err_mapE err_globalDay)
      from A B show ?thesis
        unfolding computeStats_def p Inr Let_def
        by (cases "mapE (addressEntry rates ats) adm"; cases "mapE (addressEntry rates' ats) adm";
            cases "mapE (globalDay rs rates) gdm"; cases "mapE (globalDay rs rates') gdm")
           (simp_all add: ne)
    qed
  qed
qed

subsection \<open>The count of one address on one day\<close>

definition cnt :: "(string \<times> (nat \<times> nat) list) list \<Rightarrow> string \<Rightarrow> nat \<Rightarrow> nat" where
  "cnt adm a d =
     (case map_of adm a of None \<Rightarrow> 0
      | Some dm \<Rightarrow> (case map_of dm d of None \<Rightarrow> 0 | Some c \<Rightarrow> c))"

lemma cnt_bump: "cnt (bump a0 d0 adm) a d = cnt adm a d + (if a = a0 \<and> d = d0 then 1 else 0)"
  by (auto simp: cnt_def bump_def countDay_def update_conv' split: option.splits)

lemma cnt_fold:
  "cnt (fold (\<lambda>r. bump (ReceiptEntry.address r) (dayOf r)) rs adm) a d
     = cnt adm a d + length (filter (\<lambda>r. ReceiptEntry.address r = a \<and> dayOf r = d) rs)"
  by (induction rs arbitrary: adm) (auto simp: cnt_bump)

lemma mapE_set: "mapE f xs = Inr ys \<Longrightarrow> y \<in> set ys \<Longrightarrow> \<exists>x\<in>set xs. f x = Inr y"
  by (induction xs arbitrary: ys) (auto split: sum.splits)

lemma computeStats_entries:
  assumes "computeStats rs rates = Inr g"
  shows "(\<forall>e\<in>set (GlobalStats.days g).
           DayStats.receipts e
             = length (filter (\<lambda>r. dayFromChallengeId (challenge_id r) = Inr (day e)) rs) \<and>
           DayStats.star e
             = jsmul (Num (of_nat (DayStats.receipts e))) (starPerReceipt rates (day e)) \<and>
           DayStats.night e = jsdiv (DayStats.star e) million) \<and>
     (\<forall>a\<in>set (byAddress g). \<forall>e\<in>set (AddressStats.days a).
           DayStats.receipts e
             = length (filter (\<lambda>r. ReceiptEntry.address r = AddressStats.address a \<and>
                 dayFromChallengeId (challenge_id r) = Inr (day e)) rs) \<and>
           DayStats.star e
             = jsmul (Num (of_nat (DayStats.receipts e))) (starPerReceipt rates (day e)) \<and>
           DayStats.night e = jsdiv (DayStats.star e) million)"
    (is "?thesis1 \<and> ?thesis2")
proof (cases "rs = []")
  case True
  with assms have "g = emptyStats"
    by (simp add: computeStats_Nil)
  then show ?thesis
    by (simp add: emptyStats_def)
next
  case ne: False
  show ?thesis
  proof
    obtain adm ats unsorted gdm ds where
      ga: "groupByAddress rs [] [] = Inr (adm, ats)" and
      un: "mapE (addressEntry rates ats) adm = Inr unsorted" and
      md: "mapE (globalDay rs rates) gdm = Inr ds" and
      g: "GlobalStats.days g = sortDays ds" "byAddress g = sortAddresses unsorted"
      using computeStats_Inr [OF assms ne] by blast
    have "\<forall>e\<in>set ds.
        DayStats.receipts e
          = length (filter (\<lambda>r. dayFromChallengeId (challenge_id r) = Inr (day e)) rs) \<and>
        DayStats.star e
          = jsmul (Num (of_nat (DayStats.receipts e))) (starPerReceipt rates (day e)) \<and>
        DayStats.night e = jsdiv (DayStats.star e) million"
      using md by (rule mapE_all) (simp add: globalDay_Inr)
    then show ?thesis1
      by (simp add: g(1) sortDays_def)
    have dec: "\<forall>r\<in>set rs. decodes r"
      using ga by (rule groupByAddress_Inr_decodes)
    have adm: "adm = fold (\<lambda>r. bump (ReceiptEntry.address r) (dayOf r)) rs []"
      using ga groupByAddress_decodes [OF dec, of "[]" "[]"] by simp
    have outer: "distinct (map fst adm)"
      unfolding adm keys_fold_bump by (simp add: distinct_encounterOrder)
    have inner: "\<forall>p\<in>set adm. distinct (map fst (snd p))"
      unfolding adm by (rule inner_distinct_fold) simp
    have count: "snd p = length (filter (\<lambda>r. ReceiptEntry.address r = fst x \<and>
        dayFromChallengeId (challenge_id r) = Inr (fst p)) rs)"
      if "x \<in> set adm" "p \<in> set (snd x)" for x p
    proof -
      have "map_of adm (fst x) = Some (snd x)"
        using outer that(1) by (intro map_of_is_SomeI) simp_all
      moreover have "map_of (snd x) (fst p) = Some (snd p)"
        using inner that by (intro map_of_is_SomeI) simp_all
      ultimately have "snd p = cnt adm (fst x) (fst p)"
        by (simp add: cnt_def)
      also have "\<dots> = length (filter (\<lambda>r. ReceiptEntry.address r = fst x \<and> dayOf r = fst p) rs)"
        unfolding adm cnt_fold by (simp add: cnt_def)
      also have "filter (\<lambda>r. ReceiptEntry.address r = fst x \<and> dayOf r = fst p) rs
          = filter (\<lambda>r. ReceiptEntry.address r = fst x \<and>
              dayFromChallengeId (challenge_id r) = Inr (fst p)) rs"
        using dec by (intro filter_cong refl) (auto simp: dayOf_eq_iff)
      finally show ?thesis .
    qed
    show ?thesis2
    proof (intro ballI)
      fix a e
      assume "a \<in> set (byAddress g)" "e \<in> set (AddressStats.days a)"
      then have "a \<in> set unsorted"
        by (simp add: g(2) sortAddresses_def)
      then obtain x where x: "x \<in> set adm" "addressEntry rates ats x = Inr a"
        using mapE_set [OF un] by blast
      obtain ds' where ds': "mapE (addressDay rates) (snd x) = Inr ds'"
        "AddressStats.address a = fst x" "AddressStats.days a = sortDays ds'"
        using addressEntry_Inr [OF x(2)] by blast
      have "e \<in> set ds'"
        using \<open>e \<in> set (AddressStats.days a)\<close> by (simp add: ds'(3) sortDays_def)
      then obtain p where p: "p \<in> set (snd x)" "addressDay rates p = Inr e"
        using mapE_set [OF ds'(1)] by blast
      from addressDay_Inr [OF p(2)] count [OF x(1) p(1)] ds'(2)
      show "DayStats.receipts e
             = length (filter (\<lambda>r. ReceiptEntry.address r = AddressStats.address a \<and>
                 dayFromChallengeId (challenge_id r) = Inr (day e)) rs) \<and>
           DayStats.star e
             = jsmul (Num (of_nat (DayStats.receipts e))) (starPerReceipt rates (day e)) \<and>
           DayStats.night e = jsdiv (DayStats.star e) million"
        by simp
    qed
  qed
qed

subsection \<open>The example with a table of two rates\<close>

text \<open>The receipts of the worked example with rates for days 1 and 2 only.\<close>

definition shortStats :: GlobalStats where
  "shortStats =
     \<lparr>totalReceipts = 2, totalAddresses = 2,
      days =
        [\<lparr>day = 3, date = ''2025-11-01'', receipts = 1, addresses = Some 1, star = Num 0,
           night = Num 0\<rparr>,
         \<lparr>day = 2, date = ''2025-10-31'', receipts = 1, addresses = Some 1, star = Num 1,
           night = Num (4722366482869645 / 4722366482869645213696)\<rparr>],
      byAddress =
        [\<lparr>address = ''A'',
           days =
             [\<lparr>day = 2, date = ''2025-10-31'', receipts = 1, addresses = None, star = Num 1,
                night = Num (4722366482869645 / 4722366482869645213696)\<rparr>],
           totalReceipts = 1, totalStar = Num 1,
           totalNight = Num (4722366482869645 / 4722366482869645213696),
           firstSolution = Some ''2025-11-05T10:15:00Z'',
           lastSolution = Some ''2025-11-05T10:15:00Z''\<rparr>,
         \<lparr>address = ''B'',
           days =
             [\<lparr>day = 3, date = ''2025-11-01'', receipts = 1, addresses = None, star = Num 0,
                night = Num 0\<rparr>],
           totalReceipts = 1, totalStar = Num 0, totalNight = Num 0,
           firstSolution = Some ''2025-11-05T10:45:00Z'',
           lastSolution = Some ''2025-11-05T10:45:00Z''\<rparr>],
      startDate = Some ''2025-10-31'', endDate = Some ''2025-11-01'',
      grandTotal =
        \<lparr>receipts = 2, star = Num 1,
         night = Num (4722366482869645 / 4722366482869645213696)\<rparr>\<rparr>"

lemma fl_zero: "fl 0 = Num 0"
  by (simp add: fl_def)

lemma star_short:
  "starPerReceipt [Num 0, Num 1] 2 = Num 1" "starPerReceipt [Num 0, Num 1] 3 = Num 0"
  by (simp_all add: starPerReceipt_def index_def)

lemma addressDay_short:
  "addressDay [Num 0, Num 1] (2, 1) =
     Inr \<lparr>day = 2, date = ''2025-10-31'', receipts = 1, addresses = None, star = Num 1,
          night = Num (4722366482869645 / 4722366482869645213696)\<rparr>"
  "addressDay [Num 0, Num 1] (3, 1) =
     Inr \<lparr>day = 3, date = ''2025-11-01'', receipts = 1, addresses = None, star = Num 0,
          night = Num 0\<rparr>"
  unfolding addressDay_def Let_def
  by (simp_all add: date_of_day_examples star_short fl_one fl_zero night_examples
      jsdiv_zero_million)

lemma addressEntry_short:
  "addressEntry [Num 0, Num 1]
     [(''A'', [''2025-11-05T10:15:00Z'']), (''B'', [''2025-11-05T10:45:00Z''])] (''A'', [(2, 1)])
   = Inr (byAddress shortStats ! 0)"
  "addressEntry [Num 0, Num 1]
     [(''A'', [''2025-11-05T10:15:00Z'']), (''B'', [''2025-11-05T10:45:00Z''])] (''B'', [(3, 1)])
   = Inr (byAddress shortStats ! 1)"
  unfolding addressEntry_def Let_def snd_conv fst_conv mapE.simps addressDay_short sum.case
  by (simp_all add: sortDays_def shortStats_def fl_one fl_zero night_examples jsdiv_zero_million)

lemma globalDay_short:
  "globalDay exampleReceipts [Num 0, Num 1] (2, [''A'']) = Inr (GlobalStats.days shortStats ! 1)"
  "globalDay exampleReceipts [Num 0, Num 1] (3, [''B'']) = Inr (GlobalStats.days shortStats ! 0)"
  unfolding globalDay_def Let_def
  by (simp_all add: date_of_day_examples star_short fl_one fl_zero night_examples
      jsdiv_zero_million exampleReceipts_def day_examples shortStats_def)

lemma computeStats_short: "computeStats exampleReceipts [Num 0, Num 1] = Inr shortStats"
proof -
  have un: "mapE (addressEntry [Num 0, Num 1]
        [(''A'', [''2025-11-05T10:15:00Z'']), (''B'', [''2025-11-05T10:45:00Z''])])
      [(''A'', [(2, 1)]), (''B'', [(3, 1)])] = Inr (byAddress shortStats)"
    unfolding mapE.simps addressEntry_short sum.case by (simp add: shortStats_def)
  have ds: "mapE (globalDay exampleReceipts [Num 0, Num 1]) [(2, [''A'']), (3, [''B''])]
      = Inr (rev (GlobalStats.days shortStats))"
    unfolding mapE.simps globalDay_short sum.case by (simp add: shortStats_def)
  have sa: "sortAddresses (byAddress shortStats) = byAddress shortStats"
    by (simp add: sortAddresses_def shortStats_def)
  have sd: "sortDays (rev (GlobalStats.days shortStats)) = GlobalStats.days shortStats"
    by (simp add: sortDays_def shortStats_def)
  have len: "length exampleReceipts = 2"
    by (simp add: exampleReceipts_def)
  show ?thesis
    unfolding computeStats_def Let_def groupByAddress_example groupByDay_example sum.case
      prod.case un ds sa sd
    by (simp add: len) (simp add: shortStats_def fl_one fl_zero fl_micro)
qed

text \<open>
  Claim C6. A day whose index \<open>day - 1\<close> lies outside the rate table has rate 0. Whether
  \<open>computeStats\<close>, \<open>computeHourlyStats\<close>, \<open>computeLastNHours\<close> and \<open>getTodayStats\<close> throw, and
  what they throw, is the same for every rate table, and each of them returns for a table
  what it returns for that table padded with zeros. In the result of \<open>computeStats\<close>, a day
  entry of such a day, in the global list or in an address's list, has the count of its
  receipts and \<open>star\<close> and \<open>night\<close> zero.
\<close>

theorem short_rate_table:
  "(\<not> (1 \<le> d \<and> d \<le> length rates) \<longrightarrow> starPerReceipt rates d = Num 0) \<and>
   err (computeStats rs rates) = err (computeStats rs rates') \<and>
   err (computeHourlyStats h rs rates) = err (computeHourlyStats h rs rates') \<and>
   err (computeLastNHours h rs rates hours) = err (computeLastNHours h rs rates' hours) \<and>
   err (getTodayStats h rs rates) = err (getTodayStats h rs rates') \<and>
   computeStats rs (rates @ replicate k (Num 0)) = computeStats rs rates \<and>
   computeHourlyStats h rs (rates @ replicate k (Num 0)) = computeHourlyStats h rs rates \<and>
   computeLastNHours h rs (rates @ replicate k (Num 0)) hours
     = computeLastNHours h rs rates hours \<and>
   getTodayStats h rs (rates @ replicate k (Num 0)) = getTodayStats h rs rates \<and>
   (computeStats rs rates = Inr g \<longrightarrow>
      (\<forall>e\<in>set (GlobalStats.days g). \<not> (1 \<le> day e \<and> day e \<le> length rates) \<longrightarrow>
         DayStats.receipts e
           = length (filter (\<lambda>r. dayFromChallengeId (challenge_id r) = Inr (day e)) rs) \<and>
         DayStats.star e = Num 0 \<and> DayStats.night e = Num 0) \<and>
      (\<forall>a\<in>set (byAddress g). \<forall>e\<in>set (AddressStats.days a).
         \<not> (1 \<le> day e \<and> day e \<le> length rates) \<longrightarrow>
         DayStats.receipts e
           = length (filter (\<lambda>r. ReceiptEntry.address r = AddressStats.address a \<and>
               dayFromChallengeId (challenge_id r) = Inr (day e)) rs) \<and>
         DayStats.star e = Num 0 \<and> DayStats.night e = Num 0))"
proof -
  have pad: "\<forall>d. starPerReceipt (rates @ replicate k (Num 0)) d = starPerReceipt rates d"
    by (simp add: starPerReceipt_padded)
  have entries: "(\<forall>e\<in>set (GlobalStats.days g). \<not> (1 \<le> day e \<and> day e \<le> length rates) \<longrightarrow>
         DayStats.receipts e
           = length (filter (\<lambda>r. dayFromChallengeId (challenge_id r) = Inr (day e)) rs) \<and>
         DayStats.star e = Num 0 \<and> DayStats.night e = Num 0) \<and>
      (\<forall>a\<in>set (byAddress g). \<forall>e\<in>set (AddressStats.days a).
         \<not> (1 \<le> day e \<and> day e \<le> length rates) \<longrightarrow>
         DayStats.receipts e
           = length (filter (\<lambda>r. ReceiptEntry.address r = AddressStats.address a \<and>
               dayFromChallengeId (challenge_id r) = Inr (day e)) rs) \<and>
         DayStats.star e = Num 0 \<and> DayStats.night e = Num 0)"
    if g: "computeStats rs rates = Inr g"
  proof -
    have zero: "DayStats.star e = Num 0 \<and> DayStats.night e = Num 0"
      if "DayStats.star e
          = jsmul (Num (of_nat (DayStats.receipts e))) (starPerReceipt rates (day e))"
        "DayStats.night e = jsdiv (DayStats.star e) million"
        "\<not> (1 \<le> day e \<and> day e \<le> length rates)" for e
      using that starPerReceipt_outside [of "day e" rates]
      by (simp add: fl_zero jsdiv_zero_million)
    from computeStats_entries [OF g] zero show ?thesis
      by blast
  qed
  show ?thesis
    using starPerReceipt_outside [of d rates] err_computeStats [of rs rates rates']
      err_computeHourlyStats [of h rs rates rates']
      err_computeLastNHours [of h rs rates hours rates'] err_getTodayStats [of h rs rates rates']
      rates_cong [OF pad] entries
    by (intro conjI impI) blast+
qed

theorem short_rate_table_witness:
  "\<not> (1 \<le> (3::nat) \<and> 3 \<le> length [Num 0, Num 1]) \<and>
   starPerReceipt [Num 0, Num 1] 3 = Num 0 \<and>
   computeStats exampleReceipts [Num 0, Num 1] = Inr shortStats \<and>
   day (GlobalStats.days shortStats ! 0) = 3 \<and>
   DayStats.receipts (GlobalStats.days shortStats ! 0)
     = length (filter (\<lambda>r. dayFromChallengeId (challenge_id r) = Inr 3) exampleReceipts) \<and>
   DayStats.receipts (GlobalStats.days shortStats ! 0) = 1 \<and>
   DayStats.star (GlobalStats.days shortStats ! 0) = Num 0 \<and>
   DayStats.night (GlobalStats.days shortStats ! 0) = Num 0 \<and>
   err (computeStats exampleReceipts []) = None \<and>
   computeStats exampleReceipts [Num 0, Num 1, Num 0, Num 0] = Inr shortStats"
proof -
  note inst = short_rate_table [where rs = exampleReceipts and rates = "[Num 0, Num 1]"
      and g = shortStats and d = 3 and k = 2 and rates' = "[]"]
  have out: "\<not> (1 \<le> (3::nat) \<and> 3 \<le> length [Num 0, Num 1])"
    by simp
  have rate: "starPerReceipt [Num 0, Num 1] 3 = Num 0"
    using inst [THEN conjunct1] out by blast
  have "err (computeStats exampleReceipts [Num 0, Num 1]) = err (computeStats exampleReceipts [])"
    using inst [THEN conjunct2, THEN conjunct1] .
  then have noerr: "err (computeStats exampleReceipts []) = None"
    by (simp add: computeStats_short)
  have "computeStats exampleReceipts ([Num 0, Num 1] @ replicate 2 (Num 0))
      = computeStats exampleReceipts [Num 0, Num 1]"
    using inst by blast
  then have padded: "computeStats exampleReceipts [Num 0, Num 1, Num 0, Num 0] = Inr shortStats"
    by (simp add: computeStats_short)
  have e: "GlobalStats.days shortStats ! 0 \<in> set (GlobalStats.days shortStats)"
    "day (GlobalStats.days shortStats ! 0) = 3"
    "DayStats.receipts (GlobalStats.days shortStats ! 0) = 1"
    by (simp_all add: shortStats_def)
  have "\<forall>e\<in>set (GlobalStats.days shortStats). \<not> (1 \<le> day e \<and> day e \<le> length [Num 0, Num 1]) \<longrightarrow>
      DayStats.receipts e
        = length (filter (\<lambda>r. dayFromChallengeId (challenge_id r) = Inr (day e)) exampleReceipts) \<and>
      DayStats.star e = Num 0 \<and> DayStats.night e = Num 0"
    using inst computeStats_short by blast
  then have "\<not> (1 \<le> day (GlobalStats.days shortStats ! 0) \<and>
        day (GlobalStats.days shortStats ! 0) \<le> length [Num 0, Num 1]) \<longrightarrow>
      DayStats.receipts (GlobalStats.days shortStats ! 0)
        = length (filter (\<lambda>r. dayFromChallengeId (challenge_id r)
            = Inr (day (GlobalStats.days shortStats ! 0))) exampleReceipts) \<and>
      DayStats.star (GlobalStats.days shortStats ! 0) = Num 0 \<and>
      DayStats.night (GlobalStats.days shortStats ! 0) = Num 0"
    using e(1) by blast
  then have entry: "DayStats.receipts (GlobalStats.days shortStats ! 0)
        = length (filter (\<lambda>r. dayFromChallengeId (challenge_id r) = Inr 3) exampleReceipts) \<and>
      DayStats.star (GlobalStats.days shortStats ! 0) = Num 0 \<and>
      DayStats.night (GlobalStats.days shortStats ! 0) = Num 0"
    unfolding e(2) using out by blast
  show ?thesis
    using out rate computeStats_short e(2,3) entry noerr padded by (intro conjI) blast+
qed

section \<open>The order of the lists\<close>

subsection \<open>Descending order\<close>

lemma descending_sort_key:
  fixes f :: "'a \<Rightarrow> nat"
  shows "sorted_wrt (\<lambda>x y. f y \<le> f x) (sort_key (\<lambda>x. - int (f x)) xs)"
proof -
  have "sorted (map (\<lambda>x. - int (f x)) (sort_key (\<lambda>x. - int (f x)) xs))"
    by (rule sorted_sort_key)
  then show ?thesis
    by (simp add: sorted_map)
qed

lemma strictly_descending:
  fixes f :: "'a \<Rightarrow> nat"
  shows "sorted_wrt (\<lambda>x y. f y \<le> f x) ys \<Longrightarrow> distinct (map f ys) \<Longrightarrow>
    sorted_wrt (\<lambda>x y. f y < f x) ys"
  by (induction ys) (auto simp: less_le image_iff)

lemma strictly_descending_sort_key:
  fixes f :: "'a \<Rightarrow> nat"
  assumes "distinct (map f xs)"
  shows "sorted_wrt (\<lambda>x y. f y < f x) (sort_key (\<lambda>x. - int (f x)) xs)"
proof -
  let ?ys = "sort_key (\<lambda>x. - int (f x)) xs"
  have "mset (map f ?ys) = mset (map f xs)"
    by simp
  then have "distinct (map f ?ys)"
    using assms by (metis mset_eq_imp_distinct_iff)
  with descending_sort_key [of f xs] show ?thesis
    by (rule strictly_descending)
qed

lemma stable_sort_key:
  fixes f :: "'a \<Rightarrow> nat"
  shows "filter (\<lambda>x. f x = n) (sort_key (\<lambda>x. - int (f x)) xs) = filter (\<lambda>x. f x = n) xs"
  using sort_key_stable [of "\<lambda>x. - int (f x)" "- int n" xs] by simp

subsection \<open>The address list before sorting\<close>

lemma computeStats_order:
  assumes "computeStats rs rates = Inr g"
  shows "sorted_wrt (\<lambda>a b. AddressStats.totalReceipts b \<le> AddressStats.totalReceipts a)
           (byAddress g) \<and>
     (\<forall>a\<in>set (byAddress g). AddressStats.totalReceipts a
        = length (filter (\<lambda>r. ReceiptEntry.address r = AddressStats.address a) rs)) \<and>
     (\<forall>n. map AddressStats.address
             (filter (\<lambda>a. AddressStats.totalReceipts a = n) (byAddress g))
           = filter (\<lambda>x. length (filter (\<lambda>r. ReceiptEntry.address r = x) rs) = n)
               (encounterOrder (map ReceiptEntry.address rs))) \<and>
     (\<forall>a\<in>set (byAddress g). sorted_wrt (\<lambda>d e. day e < day d) (AddressStats.days a)) \<and>
     sorted_wrt (\<lambda>d e. day e < day d) (GlobalStats.days g)"
proof (cases "rs = []")
  case True
  with assms have "g = emptyStats"
    by (simp add: computeStats_Nil)
  with True show ?thesis
    by (simp add: emptyStats_def)
next
  case False
  obtain adm ats unsorted gdm ds where
    ga: "groupByAddress rs [] [] = Inr (adm, ats)" and
    un: "mapE (addressEntry rates ats) adm = Inr unsorted" and
    gd: "groupByDay rs [] = Inr gdm" and
    md: "mapE (globalDay rs rates) gdm = Inr ds" and
    g: "GlobalStats.days g = sortDays ds" "byAddress g = sortAddresses unsorted"
    using computeStats_Inr [OF assms False] by blast
  have dec: "\<forall>r\<in>set rs. decodes r"
    using ga by (rule groupByAddress_Inr_decodes)
  have adm: "adm = fold (\<lambda>r. bump (ReceiptEntry.address r) (dayOf r)) rs []"
    using ga groupByAddress_decodes [OF dec, of "[]" "[]"] by simp
  have gdm: "gdm = fold (\<lambda>r. bumpDay (dayOf r) (ReceiptEntry.address r)) rs []"
    using gd groupByDay_decodes [OF dec, of "[]"] by simp
  have keys: "map fst adm = encounterOrder (map ReceiptEntry.address rs)"
    unfolding adm keys_fold_bump by simp
  then have outer: "distinct (map fst adm)"
    by (simp add: distinct_encounterOrder)
  have inner: "\<forall>p\<in>set adm. distinct (map fst (snd p))"
    unfolding adm by (rule inner_distinct_fold) simp
  let ?count = "\<lambda>x. length (filter (\<lambda>r. ReceiptEntry.address r = x) rs)"
  have entry: "AddressStats.address a = fst x \<and> AddressStats.totalReceipts a = ?count (fst x) \<and>
      sorted_wrt (\<lambda>d e. day e < day d) (AddressStats.days a)"
    if x: "x \<in> set adm" and a: "addressEntry rates ats x = Inr a" for x a
  proof -
    obtain ds' where ds': "mapE (addressDay rates) (snd x) = Inr ds'"
      "AddressStats.address a = fst x" "AddressStats.days a = sortDays ds'"
      "AddressStats.totalReceipts a = sum_list (map snd (snd x))"
      using addressEntry_Inr [OF a] by blast
    have "map_of adm (fst x) = Some (snd x)"
      using outer x by (intro map_of_is_SomeI) simp_all
    then have "sum_list (map snd (snd x)) = atot adm (fst x)"
      by (simp add: atot_def)
    also have "\<dots> = ?count (fst x)"
      unfolding adm atot_fold by (simp add: atot_def)
    finally have total: "AddressStats.totalReceipts a = ?count (fst x)"
      using ds'(4) by simp
    have "map day ds' = map fst (snd x)"
      using ds'(1) by (rule mapE_map) (simp add: addressDay_Inr)
    then have "distinct (map day ds')"
      using inner x by simp
    then have "sorted_wrt (\<lambda>d e. day e < day d) (AddressStats.days a)"
      unfolding ds'(3) sortDays_def by (rule strictly_descending_sort_key)
    with ds'(2) total show ?thesis
      by simp
  qed
  have addr: "map AddressStats.address unsorted = map fst adm"
    using un by (rule mapE_map) (use addressEntry_Inr in blast)
  have each: "\<forall>a\<in>set unsorted. AddressStats.totalReceipts a = ?count (AddressStats.address a) \<and>
      sorted_wrt (\<lambda>d e. day e < day d) (AddressStats.days a)"
  proof
    fix a
    assume "a \<in> set unsorted"
    then obtain x where "x \<in> set adm" "addressEntry rates ats x = Inr a"
      using mapE_set [OF un] by blast
    from entry [OF this] show "AddressStats.totalReceipts a = ?count (AddressStats.address a) \<and>
      sorted_wrt (\<lambda>d e. day e < day d) (AddressStats.days a)"
      by simp
  qed
  have sorted: "sorted_wrt (\<lambda>a b. AddressStats.totalReceipts b \<le> AddressStats.totalReceipts a)
      (byAddress g)"
    unfolding g(2) sortAddresses_def by (rule descending_sort_key)
  have members: "\<forall>a\<in>set (byAddress g).
      AddressStats.totalReceipts a = ?count (AddressStats.address a) \<and>
      sorted_wrt (\<lambda>d e. day e < day d) (AddressStats.days a)"
    using each by (simp add: g(2) sortAddresses_def)
  have ties: "map AddressStats.address
        (filter (\<lambda>a. AddressStats.totalReceipts a = n) (byAddress g))
      = filter (\<lambda>x. ?count x = n) (encounterOrder (map ReceiptEntry.address rs))" for n
  proof -
    have "filter (\<lambda>a. AddressStats.totalReceipts a = n) (byAddress g)
        = filter (\<lambda>a. AddressStats.totalReceipts a = n) unsorted"
      unfolding g(2) sortAddresses_def by (rule stable_sort_key)
    also have "\<dots> = filter (\<lambda>a. ?count (AddressStats.address a) = n) unsorted"
      using each by (intro filter_cong refl) simp
    finally have "map AddressStats.address
          (filter (\<lambda>a. AddressStats.totalReceipts a = n) (byAddress g))
        = filter (\<lambda>x. ?count x = n) (map AddressStats.address unsorted)"
      by (simp add: filter_map comp_def)
    then show ?thesis
      by (simp add: addr keys)
  qed
  have "map day ds = map fst gdm"
    using md by (rule mapE_map) (simp add: globalDay_Inr)
  moreover have "distinct (map fst gdm)"
    using keys_fold_bumpDay [of "[]" rs] unfolding gdm by simp
  ultimately have "distinct (map day ds)"
    by simp
  then have "sorted_wrt (\<lambda>d e. day e < day d) (GlobalStats.days g)"
    unfolding g(1) sortDays_def by (rule strictly_descending_sort_key)
  with sorted members ties show ?thesis
    by blast
qed

text \<open>
  Claim C8. In the result of \<open>computeStats\<close> the \<open>byAddress\<close> list is in descending order of
  \<open>totalReceipts\<close>, which is the number of the address's receipts, and the addresses with
  the same \<open>totalReceipts\<close> stand in the order of their first appearance in the receipt
  list. The day entries of every address and the global day entries are in strictly
  descending order of the day number, so no day occurs twice in a list.
\<close>

theorem computeStats_ranking:
  "computeStats rs rates = Inr g \<longrightarrow>
     sorted_wrt (\<lambda>a b. AddressStats.totalReceipts b \<le> AddressStats.totalReceipts a)
       (byAddress g) \<and>
     (\<forall>a\<in>set (byAddress g). AddressStats.totalReceipts a
        = length (filter (\<lambda>r. ReceiptEntry.address r = AddressStats.address a) rs)) \<and>
     (\<forall>n. map AddressStats.address
             (filter (\<lambda>a. AddressStats.totalReceipts a = n) (byAddress g))
           = filter (\<lambda>x. length (filter (\<lambda>r. ReceiptEntry.address r = x) rs) = n)
               (encounterOrder (map ReceiptEntry.address rs))) \<and>
     (\<forall>a\<in>set (byAddress g). sorted_wrt (\<lambda>d e. day e < day d) (AddressStats.days a)) \<and>
     sorted_wrt (\<lambda>d e. day e < day d) (GlobalStats.days g)"
  using computeStats_order [of rs rates g] by blast

theorem computeStats_ranking_witness:
  "computeStats exampleReceipts [Num 0, Num 1, Num 4] = Inr exampleStats \<and>
   map AddressStats.totalReceipts (byAddress exampleStats) = [1, 1] \<and>
   map AddressStats.address (byAddress exampleStats) = [''A'', ''B''] \<and>
   encounterOrder (map ReceiptEntry.address exampleReceipts) = [''A'', ''B''] \<and>
   map AddressStats.address
       (filter (\<lambda>a. AddressStats.totalReceipts a = 1) (byAddress exampleStats))
     = filter (\<lambda>x. length (filter (\<lambda>r. ReceiptEntry.address r = x) exampleReceipts) = 1)
         (encounterOrder (map ReceiptEntry.address exampleReceipts)) \<and>
   sorted_wrt (\<lambda>a b. AddressStats.totalReceipts b \<le> AddressStats.totalReceipts a)
     (byAddress exampleStats) \<and>
   map day (GlobalStats.days exampleStats) = [3, 2] \<and>
   sorted_wrt (\<lambda>d e. day e < day d) (GlobalStats.days exampleStats)"
proof -
  note ranking = computeStats_ranking
    [where rs = exampleReceipts and rates = "[Num 0, Num 1, Num 4]" and g = exampleStats,
      THEN mp, OF computeStats_example]
  have sorted: "sorted_wrt (\<lambda>a b. AddressStats.totalReceipts b \<le> AddressStats.totalReceipts a)
      (byAddress exampleStats)"
    using ranking by blast
  have ties: "map AddressStats.address
       (filter (\<lambda>a. AddressStats.totalReceipts a = 1) (byAddress exampleStats))
     = filter (\<lambda>x. length (filter (\<lambda>r. ReceiptEntry.address r = x) exampleReceipts) = 1)
         (encounterOrder (map ReceiptEntry.address exampleReceipts))"
    using ranking by blast
  have days: "sorted_wrt (\<lambda>d e. day e < day d) (GlobalStats.days exampleStats)"
    using ranking by blast
  have facts: "map AddressStats.totalReceipts (byAddress exampleStats) = [1, 1]"
    "map AddressStats.address (byAddress exampleStats) = [''A'', ''B'']"
    "map day (GlobalStats.days exampleStats) = [3, 2]"
    by (simp_all add: exampleStats_def)
  have order: "encounterOrder (map ReceiptEntry.address exampleReceipts) = [''A'', ''B'']"
    by (simp add: exampleReceipts_def)
  show ?thesis
    using sorted ties days facts order computeStats_example by (intro conjI)
qed

end
